theory Spec2Isabelle
  imports Main
begin

section \<open>The driver of wayland-debug (main.py)\<close>

text \<open>
  The file \<^verbatim>\<open>main.py\<close> is the driving loop of the debugger: it reads the command line,
  builds the two matchers, constructs the session, and feeds the decoded trace to it.
  Every other module it imports (\<^verbatim>\<open>session\<close>, \<^verbatim>\<open>matcher\<close>, \<^verbatim>\<open>wl.parse_debug\<close>,
  \<^verbatim>\<open>wl.protocol\<close>, \<^verbatim>\<open>output\<close>, \<^verbatim>\<open>util\<close>, \<^verbatim>\<open>gdb_integration\<close>) is a collaborator
  whose code is not part of \<^verbatim>\<open>main.py\<close>.

  The driver is therefore modelled by the sequence of calls it makes on its
  collaborators. The state threaded through every function is the history of calls made
  so far, oldest first. A call whose answer the driver branches on
  (\<^verbatim>\<open>session.stopped()\<close>, \<^verbatim>\<open>session.quit()\<close>) is recorded with its answer, and the
  answer is given by a parameter that may depend on the whole history: any deterministic
  session is such a parameter. Pure functions of the collaborators
  (\<^verbatim>\<open>matcher.parse\<close>, \<^verbatim>\<open>simplify\<close>, \<^verbatim>\<open>str\<close>, \<^verbatim>\<open>util.color\<close>) are parameters too.

  Two things are taken from the collaborators as given. The methods of the session and
  of the output return normally: the only exceptions in the model are those \<^verbatim>\<open>main.py\<close>
  itself provides for (\<^verbatim>\<open>RuntimeError\<close> from \<^verbatim>\<open>matcher.parse\<close>, \<^verbatim>\<open>FileNotFoundError\<close>
  from \<^verbatim>\<open>open\<close>), whatever else \<^verbatim>\<open>matcher.parse\<close> and the builtin \<^verbatim>\<open>open\<close> raise, the
  \<^verbatim>\<open>EOFError\<close> of \<^verbatim>\<open>input\<close>, the \<^verbatim>\<open>assert\<close> and \<^verbatim>\<open>exit\<close>. And
  the decoder \<^verbatim>\<open>wl.parse_debug.file\<close> is represented by the finite list of
  \<^verbatim>\<open>(conn_id, msg)\<close> pairs it yields; what it prints itself on lines it cannot decode is
  not part of the history. The module-level code under \<^verbatim>\<open>if __name__ == '__main__'\<close>
  (the choice between \<^verbatim>\<open>gdb.runner.main\<close> and \<^verbatim>\<open>main\<close>) is not modelled.
\<close>

subsection \<open>Data\<close>

text \<open>
  The fields of a decoded message. The driver reads \<^verbatim>\<open>msg.timestamp\<close>, \<^verbatim>\<open>msg.name\<close>
  and \<^verbatim>\<open>msg.sent\<close>; the object id and the arguments are carried along untouched. The
  type of timestamps is left open: the driver only copies them, and starts from the
  literal \<^verbatim>\<open>0\<close>.
\<close>

record 't message =
  timestamp :: 't
  sent :: bool
  obj :: nat
  name :: string
  arguments :: "string list"

text \<open>
  The exceptions that can travel through the driver, and the three ways a function of
  the driver can end. Each carries the history at that moment.
\<close>

datatype py_exception =
    EOFError
  | FileNotFoundError
  | NotADirectoryError
  | AssertionError
  | RuntimeError string
  | OtherError string

datatype 'a outcome =
    Returned 'a
  | Raised py_exception 'a
  | Exited int 'a

fun calls_of :: "'a outcome \<Rightarrow> 'a" where
  "calls_of (Returned h) = h"
| "calls_of (Raised e h) = h"
| "calls_of (Exited n h) = h"

text \<open>
  The calls the driver makes, one constructor per method or function called.
  \<open>'c\<close> is the type of connection ids, \<open>'t\<close> of timestamps, \<open>'m\<close> of matchers.
\<close>

datatype ('c, 't, 'm) call =
    Out_log string
  | Out_warn string
  | Out_error string
  | Open_connection 'c "bool option" 't
  | Message 'c "'t message"
  | Close_connection 'c 't
  | Stopped bool
  | Quit bool
  | Input string
  | Command string
  | Open_file string
  | Close_file string
  | Gdb_output_streams
  | Std_streams
  | Set_color_output bool
  | Set_verbose bool
  | New_output bool bool
  | Matcher_print_help
  | Protocol_load_all
  | New_session 'm 'm
  | Gdb_plugin_main
  | Traceback_print_exc

text \<open>
  The collaborators, as far as the driver depends on them.
  \<^item> \<open>stopped\<close>, \<open>quit\<close>: the answers of \<^verbatim>\<open>session.stopped()\<close> and \<^verbatim>\<open>session.quit()\<close>
    after a given history;
  \<^item> \<open>stdin_lines\<close>: the lines \<^verbatim>\<open>input()\<close> will read from standard input, in order;
    at the end of the list \<^verbatim>\<open>input()\<close> raises \<^verbatim>\<open>EOFError\<close>;
  \<^item> \<open>stdin_file\<close>: the records \<^verbatim>\<open>wl.parse_debug.file\<close> yields when it decodes standard
    input;
  \<^item> \<open>open_file\<close>: what \<^verbatim>\<open>open(path)\<close> does, and the records the decoder yields from
    the file when it opens;
  \<^item> \<open>matcher_parse\<close>, \<open>simplify\<close>, \<open>str_matcher\<close>, \<open>matcher_always\<close>,
    \<open>matcher_never\<close>: the matcher module;
  \<^item> \<open>check_gdb\<close>: the answer of \<^verbatim>\<open>util.check_gdb()\<close>;
  \<^item> \<open>color\<close>: \<^verbatim>\<open>util.color\<close>;
  \<^item> \<open>gdb_plugin_raises\<close>: whether \<^verbatim>\<open>gdb.plugin.main(session)\<close> ends with an exception.
\<close>

record ('c, 't, 'm) env =
  stopped :: "('c, 't, 'm) call list \<Rightarrow> bool"
  quit :: "('c, 't, 'm) call list \<Rightarrow> bool"
  stdin_lines :: "string list"
  stdin_file :: "('c \<times> 't message) list"
  open_file :: "string \<Rightarrow> py_exception + ('c \<times> 't message) list"
  matcher_parse :: "string \<Rightarrow> py_exception + 'm"
  simplify :: "'m \<Rightarrow> 'm"
  str_matcher :: "'m \<Rightarrow> string"
  matcher_always :: 'm
  matcher_never :: 'm
  check_gdb :: bool
  color :: "string \<Rightarrow> string \<Rightarrow> string"
  gdb_plugin_raises :: "('c, 't, 'm) call list \<Rightarrow> bool"

text \<open>
  The namespace \<^verbatim>\<open>argparse\<close> returns. An option that takes a string is \<^verbatim>\<open>None\<close> when
  it is not given.
\<close>

record args =
  args_matcher_help :: bool
  args_verbose :: bool
  args_path :: "string option"
  args_supress :: bool
  args_color :: bool
  args_no_color :: bool
  args_f :: "string option"
  args_b :: "string option"
  args_gdb :: bool

text \<open>Python's truth value of an optional string: \<^verbatim>\<open>None\<close> and \<^verbatim>\<open>''\<close> are false.\<close>

definition truthy :: "string option \<Rightarrow> bool" where
  "truthy s = (case s of None \<Rightarrow> False | Some v \<Rightarrow> v \<noteq> [])"

subsection \<open>interactive_shell\<close>

text \<open>
  \<^verbatim>\<open>
  def interactive_shell(session):
      while session.stopped():
          if session.quit():
              break
          cmd = input('wl debug $ ')
          session.command(cmd)
  \<close>
  The loop, on the lines still unread. Each round reads one line, so the loop ends with
  the lines at the latest, by \<^verbatim>\<open>EOFError\<close>.
\<close>

fun shell_loop ::
  "('c, 't, 'm) env \<Rightarrow> string list \<Rightarrow> ('c, 't, 'm) call list \<Rightarrow> ('c, 't, 'm) call list outcome"
where
  "shell_loop session lines h =
     (let st = stopped session h; h1 = h @ [Stopped st] in
      if \<not> st then Returned h1
      else
        let q = quit session h1; h2 = h1 @ [Quit q] in
        if q then Returned h2
        else
          (case lines of
             [] \<Rightarrow> Raised EOFError (h2 @ [Input ''wl debug $ ''])
           | cmd # rest \<Rightarrow>
               shell_loop session rest (h2 @ [Input ''wl debug $ '', Command cmd])))"

declare shell_loop.simps [simp del]

definition interactive_shell ::
  "('c, 't, 'm) env \<Rightarrow> ('c, 't, 'm) call list \<Rightarrow> ('c, 't, 'm) call list outcome"
where
  "interactive_shell session h = shell_loop session (stdin_lines session) h"

subsection \<open>parse_messages\<close>

text \<open>
  \<^verbatim>\<open>known_connections\<close> is a dictionary whose values are all \<^verbatim>\<open>True\<close>; it is kept as
  the list of its items in insertion order, which is the order \<^verbatim>\<open>keys()\<close> iterates in.
\<close>

definition dict_contains :: "('k \<times> 'v) list \<Rightarrow> 'k \<Rightarrow> bool" where
  "dict_contains d k = (k \<in> set (map fst d))"

definition dict_set :: "('k \<times> 'v) list \<Rightarrow> 'k \<Rightarrow> 'v \<Rightarrow> ('k \<times> 'v) list" where
  "dict_set d k v =
     (if dict_contains d k then map (\<lambda>(k', v'). if k' = k then (k', v) else (k', v')) d
      else d @ [(k, v)])"

definition dict_keys :: "('k \<times> 'v) list \<Rightarrow> 'k list" where
  "dict_keys d = map fst d"

text \<open>
  The body of the \<^verbatim>\<open>for\<close> loop over the decoded records; the loop state is
  \<^verbatim>\<open>known_connections\<close>, \<^verbatim>\<open>last_time\<close> and the history.
  \<^verbatim>\<open>
  for conn_id, msg in parse.file(input_file, session.out):
      last_time = msg.timestamp
      if not conn_id in known_connections:
          known_connections[conn_id] = True
          is_server = None
          if msg.name ==  'get_registry':
              is_server = not msg.sent
          session.open_connection(conn_id, is_server, last_time)
      session.message(conn_id, msg)
  \<close>
\<close>

fun message_loop ::
  "('c \<times> 't message) list \<Rightarrow> ('c \<times> bool) list \<times> 't \<times> ('c, 't, 'm) call list \<Rightarrow>
   ('c \<times> bool) list \<times> 't \<times> ('c, 't, 'm) call list"
where
  "message_loop [] st = st"
| "message_loop ((conn_id, msg) # rest) (known_connections, last_time, h) =
     (let last_time = timestamp msg in
      if \<not> dict_contains known_connections conn_id then
        let known_connections = dict_set known_connections conn_id True;
            is_server = (if name msg = ''get_registry'' then Some (\<not> sent msg) else None);
            h = h @ [Open_connection conn_id is_server last_time]
        in message_loop rest (known_connections, last_time, h @ [Message conn_id msg])
      else message_loop rest (known_connections, last_time, h @ [Message conn_id msg]))"

text \<open>
  \<^verbatim>\<open>
  for conn_id in known_connections.keys():
      session.close_connection(conn_id, last_time)
  \<close>
\<close>

fun close_loop :: "'c list \<Rightarrow> 't \<Rightarrow> ('c, 't, 'm) call list \<Rightarrow> ('c, 't, 'm) call list" where
  "close_loop [] last_time h = h"
| "close_loop (conn_id # rest) last_time h =
     close_loop rest last_time (h @ [Close_connection conn_id last_time])"

definition parse_messages ::
  "('c, 't::zero, 'm) env \<Rightarrow> ('c \<times> 't message) list \<Rightarrow> bool \<Rightarrow> ('c, 't, 'm) call list \<Rightarrow>
   ('c, 't, 'm) call list outcome"
where
  "parse_messages session input_file allow_shell h =
     (let h1 = h @ [Out_log ''Parsing messages''];
          (known_connections, last_time, h2) = message_loop input_file ([], 0, h1);
          h3 = close_loop (dict_keys known_connections) last_time h2
      in if allow_shell then
           (case interactive_shell session h3 of
              Returned h4 \<Rightarrow> Returned (h4 @ [Out_log ''Done''])
            | Raised e h4 \<Rightarrow> Raised e h4
            | Exited n h4 \<Rightarrow> Exited n h4)
         else Returned (h3 @ [Out_log ''Done'']))"

subsection \<open>piped_input_main and file_input_main\<close>

text \<open>
  \<^verbatim>\<open>
  def piped_input_main(session):
      session.out.log('Getting input piped from stdin')
      parse_messages(session, sys.stdin, False)
  \<close>
\<close>

definition piped_input_main ::
  "('c, 't::zero, 'm) env \<Rightarrow> ('c, 't, 'm) call list \<Rightarrow> ('c, 't, 'm) call list outcome"
where
  "piped_input_main session h =
     parse_messages session (stdin_file session) False
       (h @ [Out_log ''Getting input piped from stdin''])"

text \<open>
  \<^verbatim>\<open>
  def file_input_main(session, file_path):
      session.out.log('Opening ' + file_path)
      try:
          input_file = open(file_path)
          parse_messages(session, input_file, True)
          input_file.close()
      except FileNotFoundError:
          session.out.error(file_path + ' not found')
  \<close>
  The handler of the \<^verbatim>\<open>try\<close> block: \<^verbatim>\<open>FileNotFoundError\<close> is reported and the function
  returns; any other exception travels on.
\<close>

definition except_FileNotFoundError ::
  "string \<Rightarrow> py_exception \<Rightarrow> ('c, 't, 'm) call list \<Rightarrow> ('c, 't, 'm) call list outcome"
where
  "except_FileNotFoundError file_path e h =
     (if e = FileNotFoundError then Returned (h @ [Out_error (file_path @ '' not found'')])
      else Raised e h)"

definition file_input_main ::
  "('c, 't::zero, 'm) env \<Rightarrow> string \<Rightarrow> ('c, 't, 'm) call list \<Rightarrow> ('c, 't, 'm) call list outcome"
where
  "file_input_main session file_path h =
     (let h1 = h @ [Out_log (''Opening '' @ file_path)];
          h2 = h1 @ [Open_file file_path]
      in case open_file session file_path of
           Inl e \<Rightarrow> except_FileNotFoundError file_path e h2
         | Inr input_file \<Rightarrow>
             (case parse_messages session input_file True h2 of
                Returned h3 \<Rightarrow> Returned (h3 @ [Close_file file_path])
              | Raised e h3 \<Rightarrow> except_FileNotFoundError file_path e h3
              | Exited n h3 \<Rightarrow> Exited n h3))"

subsection \<open>main\<close>

text \<open>Python's \<^verbatim>\<open>str\<close> of a non-negative integer.\<close>

fun str_nat :: "nat \<Rightarrow> string" where
  "str_nat n =
     (if n < 10 then [char_of (48 + n)]
      else str_nat (n div 10) @ [char_of (48 + n mod 10)])"

declare str_nat.simps [simp del]

text \<open>
  \<^verbatim>\<open>
  s = ''
  for i, c in enumerate('Color output enabled'):
      s += color('1;' + str(i % 6 + 31), c)
  \<close>
\<close>

definition color_banner :: "('c, 't, 'm) env \<Rightarrow> string" where
  "color_banner env =
     foldl (\<lambda>s (i, c). s @ color env (''1;'' @ str_nat (i mod 6 + 31)) [c]) []
       (enumerate 0 ''Color output enabled'')"

text \<open>
  The two \<^verbatim>\<open>try\<close> blocks that build the matchers are the same code up to the option
  read, the default and the label logged:
  \<^verbatim>\<open>
  filter_matcher = matcher.always
  if args.f:
      try:
          filter_matcher = matcher.parse(args.f).simplify()
          output.log('Filter matcher: ' + str(filter_matcher))
      except RuntimeError as e:
          output.error(e)
  \<close>
  The result is the matcher in force afterwards and the history. Only \<^verbatim>\<open>RuntimeError\<close>
  is handled; any other exception of \<^verbatim>\<open>matcher.parse\<close> leaves \<^verbatim>\<open>main\<close>.
\<close>

definition build_matcher ::
  "('c, 't, 'm) env \<Rightarrow> string \<Rightarrow> string option \<Rightarrow> 'm \<Rightarrow> ('c, 't, 'm) call list \<Rightarrow>
   ('m \<times> ('c, 't, 'm) call list) outcome"
where
  "build_matcher env label query fallback h =
     (case query of
        None \<Rightarrow> Returned (fallback, h)
      | Some q \<Rightarrow>
          if q = [] then Returned (fallback, h)
          else
            (case matcher_parse env q of
               Inr parsed \<Rightarrow>
                 (let m = simplify env parsed
                  in Returned (m, h @ [Out_log (label @ str_matcher env m)]))
             | Inl (RuntimeError e) \<Rightarrow> Returned (fallback, h @ [Out_error e])
             | Inl e \<Rightarrow> Raised e (fallback, h)))"

text \<open>
  The part of \<^verbatim>\<open>main\<close> after the session is constructed (lines 132 to 147): the choice
  of the input.
\<close>

definition main_input ::
  "('c, 't::zero, 'm) env \<Rightarrow> args \<Rightarrow> ('c, 't, 'm) call list \<Rightarrow> ('c, 't, 'm) call list outcome"
where
  "main_input env args h =
     (let file_path = args_path args in
      if check_gdb env then
        (let h1 = h @ (if truthy file_path
                       then [Out_warn (''Ignoring load file because we'' @ [CHR 0x27] @ ''re inside GDB'')]
                       else []);
             h2 = h1 @ [Gdb_plugin_main]
         in if gdb_plugin_raises env h2 then Returned (h2 @ [Traceback_print_exc])
            else Returned h2)
      else if truthy file_path then
        (case file_path of
           Some p \<Rightarrow> file_input_main env p h
         | None \<Rightarrow> Returned h)
      else
        (let h1 = h @ (if truthy (args_b args)
                       then [Out_warn ''Ignoring stop matcher when stdin is used for messages'']
                       else [])
         in piped_input_main env h1))"

text \<open>
  \<^verbatim>\<open>main\<close>, from the parsed command line on (lines 73 to 147). The \<^verbatim>\<open>assert\<close> raises
  when \<^verbatim>\<open>--gdb\<close> reached it; \<^verbatim>\<open>--matcher-help\<close> prints the help and leaves with
  \<^verbatim>\<open>exit(1)\<close> before any matcher is built.
\<close>

definition main ::
  "('c, 't::zero, 'm) env \<Rightarrow> args \<Rightarrow> ('c, 't, 'm) call list \<Rightarrow> ('c, 't, 'm) call list outcome"
where
  "main env args h =
     (if args_gdb args then Raised AssertionError h
      else
        let h1 = h @ [if check_gdb env then Gdb_output_streams else Std_streams];
            h2 = h1 @ (if args_no_color args then [Set_color_output False]
                       else if args_color args then [Set_color_output True] else []);
            verbose = args_verbose args;
            unprocessed_output = (\<not> args_supress args);
            h3 = h2 @ [New_output verbose unprocessed_output];
            h4 = h3 @ (if verbose then [Set_verbose True, Out_log ''Verbose output enabled'']
                       else []);
            h5 = h4 @ (if args_no_color args then
                         (if args_color args
                          then [Out_warn ''Ignoring --color, since --no-color was also specified'']
                          else []) @ [Out_log ''Color output disabled'']
                       else if args_color args then [Out_log (color_banner env)] else []);
            h6 = h5 @ (if unprocessed_output then [Out_log ''Showing unparsable output'']
                       else [])
        in if args_matcher_help args then Exited 1 (h6 @ [Matcher_print_help])
           else
             (case build_matcher env ''Filter matcher: '' (args_f args) (matcher_always env) h6 of
                Raised e (m, h7) \<Rightarrow> Raised e h7
              | Exited n (m, h7) \<Rightarrow> Exited n h7
              | Returned (filter_matcher, h7) \<Rightarrow>
                  (case build_matcher env ''Break matcher: '' (args_b args) (matcher_never env) h7 of
                     Raised e (m, h8) \<Rightarrow> Raised e h8
                   | Exited n (m, h8) \<Rightarrow> Exited n h8
                   | Returned (stop_matcher, h8) \<Rightarrow>
                       main_input env args
                         (h8 @ [Protocol_load_all, New_session filter_matcher stop_matcher]))))"

section \<open>Observations on a history\<close>

text \<open>
  What the properties below read off a history: the records delivered to
  \<^verbatim>\<open>Session.message\<close>, the connections opened and closed, and the sessions constructed,
  each in the order of the calls.
\<close>

primrec deliveries :: "('c, 't, 'm) call list \<Rightarrow> ('c \<times> 't message) list" where
  "deliveries [] = []"
| "deliveries (e # h) =
     (case e of Message conn_id msg \<Rightarrow> (conn_id, msg) # deliveries h | _ \<Rightarrow> deliveries h)"

primrec opens :: "('c, 't, 'm) call list \<Rightarrow> ('c \<times> bool option \<times> 't) list" where
  "opens [] = []"
| "opens (e # h) =
     (case e of Open_connection conn_id is_server t \<Rightarrow> (conn_id, is_server, t) # opens h
      | _ \<Rightarrow> opens h)"

primrec closes :: "('c, 't, 'm) call list \<Rightarrow> ('c \<times> 't) list" where
  "closes [] = []"
| "closes (e # h) =
     (case e of Close_connection conn_id t \<Rightarrow> (conn_id, t) # closes h | _ \<Rightarrow> closes h)"

primrec sessions :: "('c, 't, 'm) call list \<Rightarrow> ('m \<times> 'm) list" where
  "sessions [] = []"
| "sessions (e # h) =
     (case e of New_session filter_matcher stop_matcher \<Rightarrow> (filter_matcher, stop_matcher) # sessions h
      | _ \<Rightarrow> sessions h)"

definition shell_call :: "('c, 't, 'm) call \<Rightarrow> bool" where
  "shell_call e =
     (case e of Stopped b \<Rightarrow> True | Quit b \<Rightarrow> True | Input p \<Rightarrow> True | Command c \<Rightarrow> True
      | _ \<Rightarrow> False)"


text \<open>The calls the record loop makes.\<close>

definition record_call :: "('c, 't, 'm) call \<Rightarrow> bool" where
  "record_call e =
     (case e of Open_connection c i t \<Rightarrow> True | Message c m \<Rightarrow> True | _ \<Rightarrow> False)"

text \<open>The first record of a connection in a trace, if it has one.\<close>

definition first_record :: "'c \<Rightarrow> ('c \<times> 't message) list \<Rightarrow> 't message option" where
  "first_record conn_id tr = map_option snd (find (\<lambda>r. fst r = conn_id) tr)"

text \<open>
  Whether \<^verbatim>\<open>main\<close> survives a query: it is not given, it is empty, it parses, or
  \<^verbatim>\<open>matcher.parse\<close> raises the \<^verbatim>\<open>RuntimeError\<close> that \<^verbatim>\<open>main\<close> handles.
\<close>

definition handled :: "('c, 't, 'm) env \<Rightarrow> string option \<Rightarrow> bool" where
  "handled env query =
     (case query of
        None \<Rightarrow> True
      | Some q \<Rightarrow>
          if q = [] then True
          else
            (case matcher_parse env q of
               Inr parsed \<Rightarrow> True
             | Inl (RuntimeError e) \<Rightarrow> True
             | Inl e \<Rightarrow> False))"

subsection \<open>A session to run the driver on\<close>

text \<open>
  Modelled from the spec: the classes \<^verbatim>\<open>Session\<close> and \<^verbatim>\<open>Matcher\<close> are not in
  \<^verbatim>\<open>main.py\<close>. The concrete runs below use a session with the two flags of the spec's
  state machine: it starts running, a message named \<^verbatim>\<open>destroy\<close> stops it, and while it
  is stopped the command \<^verbatim>\<open>continue\<close> resumes it and the command \<^verbatim>\<open>quit\<close> makes it
  quit for good. Its matchers are their own text, and a query with an opening
  parenthesis and no closing one does not parse. Its only file is \<^verbatim>\<open>trace.log\<close>, a
  regular file: a path below it makes \<^verbatim>\<open>open\<close> raise \<^verbatim>\<open>NotADirectoryError\<close>, any other
  path \<^verbatim>\<open>FileNotFoundError\<close>.
\<close>

definition demo_step :: "(nat, int, string) call \<Rightarrow> bool \<times> bool \<Rightarrow> bool \<times> bool" where
  "demo_step e fl =
     (case e of
        Message conn_id msg \<Rightarrow> (if name msg = ''destroy'' then (True, snd fl) else fl)
      | Command cmd \<Rightarrow>
          (if fst fl \<and> cmd = ''continue'' then (False, snd fl)
           else if fst fl \<and> cmd = ''quit'' then (True, True)
           else fl)
      | _ \<Rightarrow> fl)"

definition demo_flags :: "(nat, int, string) call list \<Rightarrow> bool \<times> bool" where
  "demo_flags h = fold demo_step h (False, False)"

definition demo_parse :: "string \<Rightarrow> py_exception + string" where
  "demo_parse q =
     (if CHR ''('' \<in> set q \<and> CHR '')'' \<notin> set q then Inl (RuntimeError ''Unmatched ('')
      else Inr q)"

definition demo_msg :: "int \<Rightarrow> bool \<Rightarrow> nat \<Rightarrow> string \<Rightarrow> int message" where
  "demo_msg t s i n = \<lparr>timestamp = t, sent = s, obj = i, name = n, arguments = []\<rparr>"

definition demo_trace :: "(nat \<times> int message) list" where
  "demo_trace =
     [(1, demo_msg 0 True 1 ''get_registry''),
      (2, demo_msg 3 False 1 ''get_registry''),
      (1, demo_msg 5 True 2 ''bind''),
      (3, demo_msg 6 True 1 ''sync''),
      (1, demo_msg 7 True 4 ''destroy'')]"

definition demo_env :: "(nat, int, string) env" where
  "demo_env =
     \<lparr>stopped = (\<lambda>h. fst (demo_flags h)),
      quit = (\<lambda>h. snd (demo_flags h)),
      stdin_lines = [''help'', ''quit'', ''continue''],
      stdin_file = demo_trace,
      open_file =
        (\<lambda>p. if p = ''trace.log'' then Inr demo_trace
             else if take 10 p = ''trace.log/'' then Inl NotADirectoryError
             else Inl FileNotFoundError),
      matcher_parse = demo_parse,
      simplify = id,
      str_matcher = id,
      matcher_always = ''always'',
      matcher_never = ''never'',
      check_gdb = False,
      color = (\<lambda>code s. s),
      gdb_plugin_raises = (\<lambda>h. False)\<rparr>"

definition demo_args :: args where
  "demo_args =
     \<lparr>args_matcher_help = False, args_verbose = False, args_path = None,
      args_supress = False, args_color = False, args_no_color = False,
      args_f = None, args_b = None, args_gdb = False\<rparr>"

text \<open>
  The calls of the driver on the demo trace, with the shell: the session is stopped by the
  last record, reads \<^verbatim>\<open>help\<close> and \<^verbatim>\<open>quit\<close>, and has quit when the shell returns.
\<close>

definition demo_calls :: "(nat, int, string) call list" where
  "demo_calls =
     [Out_log ''Parsing messages'',
      Open_connection 1 (Some False) 0, Message 1 (demo_msg 0 True 1 ''get_registry''),
      Open_connection 2 (Some True) 3, Message 2 (demo_msg 3 False 1 ''get_registry''),
      Message 1 (demo_msg 5 True 2 ''bind''),
      Open_connection 3 None 6, Message 3 (demo_msg 6 True 1 ''sync''),
      Message 1 (demo_msg 7 True 4 ''destroy''),
      Close_connection 1 7, Close_connection 2 7, Close_connection 3 7,
      Stopped True, Quit False, Input ''wl debug $ '', Command ''help'',
      Stopped True, Quit False, Input ''wl debug $ '', Command ''quit'',
      Stopped True, Quit True, Out_log ''Done'']"

text \<open>
  Command lines for the demo session: both queries malformed, and a break query alone.
\<close>

definition demo_bad_args :: args where
  "demo_bad_args = demo_args\<lparr>args_f := Some ''(wl_surface'', args_b := Some ''(''\<rparr>"

definition demo_break_args :: args where
  "demo_break_args = demo_args\<lparr>args_b := Some ''wl_surface.destroy''\<rparr>"

text \<open>A break query alone, malformed.\<close>

definition demo_unparsed_break_args :: args where
  "demo_unparsed_break_args = demo_args\<lparr>args_b := Some ''(''\<rparr>"

text \<open>A load path below the regular file \<^verbatim>\<open>trace.log\<close>: no such file exists.\<close>

definition demo_below_file_args :: args where
  "demo_below_file_args = demo_args\<lparr>args_path := Some ''trace.log/x''\<rparr>"



text \<open>The calls of \<^verbatim>\<open>piped_input_main\<close> on the demo trace.\<close>

definition demo_piped_calls :: "(nat, int, string) call list" where
  "demo_piped_calls =
     [Out_log ''Getting input piped from stdin'', Out_log ''Parsing messages'',
      Open_connection 1 (Some False) 0, Message 1 (demo_msg 0 True 1 ''get_registry''),
      Open_connection 2 (Some True) 3, Message 2 (demo_msg 3 False 1 ''get_registry''),
      Message 1 (demo_msg 5 True 2 ''bind''),
      Open_connection 3 None 6, Message 3 (demo_msg 6 True 1 ''sync''),
      Message 1 (demo_msg 7 True 4 ''destroy''),
      Close_connection 1 7, Close_connection 2 7, Close_connection 3 7,
      Out_log ''Done'']"

section \<open>Properties\<close>

subsection \<open>Histories\<close>

lemma deliveries_append: "deliveries (h @ k) = deliveries h @ deliveries k"
  by (induction h) (auto split: call.splits)

lemma opens_append: "opens (h @ k) = opens h @ opens k"
  by (induction h) (auto split: call.splits)

lemma closes_append: "closes (h @ k) = closes h @ closes k"
  by (induction h) (auto split: call.splits)

lemma shell_loop_extends:
  "\<exists>ev. calls_of (shell_loop session lines h) = h @ ev \<and> list_all shell_call ev"
proof (induction lines arbitrary: h)
  case Nil
  show ?case
    by (subst shell_loop.simps) (simp add: Let_def shell_call_def)
next
  case (Cons cmd rest)
  obtain ev where ev:
    "calls_of (shell_loop session rest
        (h @ [Stopped True, Quit False, Input ''wl debug $ '', Command cmd]))
      = (h @ [Stopped True, Quit False, Input ''wl debug $ '', Command cmd]) @ ev"
    "list_all shell_call ev"
    using Cons.IH by blast
  show ?case
    by (subst shell_loop.simps) (use ev in \<open>simp add: Let_def shell_call_def\<close>)
qed

lemma shell_only_deliveries: "list_all shell_call ev \<Longrightarrow> deliveries ev = []"
  by (induction ev) (auto simp: shell_call_def split: call.splits)

lemma shell_only_opens: "list_all shell_call ev \<Longrightarrow> opens ev = []"
  by (induction ev) (auto simp: shell_call_def split: call.splits)

lemma shell_only_closes: "list_all shell_call ev \<Longrightarrow> closes ev = []"
  by (induction ev) (auto simp: shell_call_def split: call.splits)

lemma message_loop_deliveries:
  "message_loop tr (k, lt, h) = (k', lt', h') \<Longrightarrow> deliveries h' = deliveries h @ tr"
  by (induction tr arbitrary: k lt h) (auto simp: Let_def deliveries_append split: if_splits)

lemma message_loop_closes:
  "message_loop tr (k, lt, h) = (k', lt', h') \<Longrightarrow> closes h' = closes h"
  by (induction tr arbitrary: k lt h) (auto simp: Let_def closes_append split: if_splits)

lemma message_loop_last_time:
  "message_loop tr (k, lt, h) = (k', lt', h') \<Longrightarrow>
   lt' = (if tr = [] then lt else timestamp (snd (last tr)))"
  by (induction tr arbitrary: k lt h) (auto simp: Let_def split: if_splits)

lemma close_loop_eq: "close_loop ks lt h = h @ map (\<lambda>c. Close_connection c lt) ks"
  by (induction ks arbitrary: h) auto


lemma dict_contains_keys: "dict_contains d k = (k \<in> set (dict_keys d))"
  by (simp add: dict_contains_def dict_keys_def)

lemma dict_keys_set_new:
  "\<not> dict_contains d k \<Longrightarrow> dict_keys (dict_set d k v) = dict_keys d @ [k]"
  by (simp add: dict_set_def dict_keys_def)

lemma message_loop_keys:
  "message_loop tr (k, lt, h) = (k', lt', h') \<Longrightarrow>
   \<exists>new. dict_keys k' = dict_keys k @ new \<and> map fst (opens h') = map fst (opens h) @ new \<and>
         distinct new \<and> set new = fst ` set tr - set (dict_keys k)"
proof (induction tr arbitrary: k lt h)
  case Nil
  then show ?case by simp
next
  case (Cons r rest)
  obtain c m where r: "r = (c, m)" by (cases r)
  show ?case
  proof (cases "dict_contains k c")
    case True
    with Cons.prems r have "message_loop rest (k, timestamp m, h @ [Message c m]) = (k', lt', h')"
      by (simp add: Let_def)
    from Cons.IH [OF this] obtain new where new:
      "dict_keys k' = dict_keys k @ new"
      "map fst (opens (h' :: ('a, 'b, 'c) call list)) = map fst (opens (h @ [Message c m])) @ new"
      "distinct new" "set new = fst ` set rest - set (dict_keys k)"
      by blast
    from True have "c \<in> set (dict_keys k)" by (simp add: dict_contains_keys)
    with new r show ?thesis
      by (intro exI [of _ new]) (auto simp: opens_append)
  next
    case False
    let ?is = "if name m = ''get_registry'' then Some (\<not> sent m) else None"
    from False Cons.prems r
    have "message_loop rest (dict_set k c True, timestamp m,
            h @ [Open_connection c ?is (timestamp m)] @ [Message c m]) = (k', lt', h')"
      by (simp add: Let_def)
    from Cons.IH [OF this] obtain new where new:
      "dict_keys k' = dict_keys (dict_set k c True) @ new"
      "map fst (opens h') =
         map fst (opens (h @ [Open_connection c ?is (timestamp m)] @ [Message c m])) @ new"
      "distinct new" "set new = fst ` set rest - set (dict_keys (dict_set k c True))"
      by blast
    from False have notin: "c \<notin> set (dict_keys k)" by (simp add: dict_contains_keys)
    from new False r notin show ?thesis
      by (intro exI [of _ "c # new"]) (auto simp: opens_append dict_keys_set_new)
  qed
qed

lemma message_loop_opened_first:
  "message_loop tr (k, lt, h) = (k', lt', h') \<Longrightarrow>
   \<exists>ev. h' = h @ ev \<and>
        (\<forall>pre c m post. ev = pre @ Message c m # post \<longrightarrow>
           c \<in> set (dict_keys k) \<union> fst ` set (opens pre))"
proof (induction tr arbitrary: k lt h)
  case Nil
  then show ?case by simp
next
  case (Cons r rest)
  obtain c0 m0 where r: "r = (c0, m0)" by (cases r)
  show ?case
  proof (cases "dict_contains k c0")
    case True
    with Cons.prems r have "message_loop rest (k, timestamp m0, h @ [Message c0 m0]) = (k', lt', h')"
      by (simp add: Let_def)
    from Cons.IH [OF this] obtain ev where ev:
      "h' = (h @ [Message c0 m0]) @ ev"
      "\<forall>pre c m post. ev = pre @ Message c m # post \<longrightarrow>
           c \<in> set (dict_keys k) \<union> fst ` set (opens pre)"
      by blast
    from True have "c0 \<in> set (dict_keys k)" by (simp add: dict_contains_keys)
    have "c \<in> set (dict_keys k) \<union> fst ` set (opens pre)"
      if eq: "Message c0 m0 # ev = pre @ Message c m # post" for pre c m post
    proof (cases pre)
      case Nil
      with eq \<open>c0 \<in> set (dict_keys k)\<close> show ?thesis by simp
    next
      case (Cons e pre2)
      with eq have e: "e = Message c0 m0" and "ev = pre2 @ Message c m # post" by simp_all
      with ev(2) have "c \<in> set (dict_keys k) \<union> fst ` set (opens pre2)" by blast
      with Cons e show ?thesis by simp
    qed
    with ev(1) show ?thesis
      by (intro exI [of _ "Message c0 m0 # ev"]) simp
  next
    case False
    let ?is = "if name m0 = ''get_registry'' then Some (\<not> sent m0) else None"
    from False Cons.prems r
    have "message_loop rest (dict_set k c0 True, timestamp m0,
            h @ [Open_connection c0 ?is (timestamp m0)] @ [Message c0 m0]) = (k', lt', h')"
      by (simp add: Let_def)
    from Cons.IH [OF this] obtain ev where ev:
      "h' = (h @ [Open_connection c0 ?is (timestamp m0)] @ [Message c0 m0]) @ ev"
      "\<forall>pre c m post. ev = pre @ Message c m # post \<longrightarrow>
           c \<in> set (dict_keys (dict_set k c0 True)) \<union> fst ` set (opens pre)"
      by blast
    have "c \<in> set (dict_keys k) \<union> fst ` set (opens pre)"
      if eq: "Open_connection c0 ?is (timestamp m0) # Message c0 m0 # ev = pre @ Message c m # post"
      for pre c m post
    proof (cases pre)
      case Nil
      with eq show ?thesis by simp
    next
      case pre: (Cons e pre1)
      with eq have e: "e = Open_connection c0 ?is (timestamp m0)"
        and eq1: "Message c0 m0 # ev = pre1 @ Message c m # post" by simp_all
      show ?thesis
      proof (cases pre1)
        case Nil
        with eq1 pre e show ?thesis by simp
      next
        case (Cons e1 pre2)
        with eq1 have e1: "e1 = Message c0 m0" and "ev = pre2 @ Message c m # post" by simp_all
        with ev(2) have "c \<in> set (dict_keys (dict_set k c0 True)) \<union> fst ` set (opens pre2)"
          by blast
        with pre Cons e e1 False show ?thesis by (auto simp: dict_keys_set_new)
      qed
    qed
    with ev(1) show ?thesis
      by (intro exI [of _ "Open_connection c0 ?is (timestamp m0) # Message c0 m0 # ev"]) simp
  qed
qed


lemma split_at_call:
  "xs @ ys = pre @ x # post \<Longrightarrow>
   (\<exists>pre2. pre = xs @ pre2 \<and> ys = pre2 @ x # post) \<or>
   (\<exists>post1. xs = pre @ x # post1 \<and> post = post1 @ ys)"
proof (induction xs arbitrary: pre)
  case Nil
  then show ?case by simp
next
  case (Cons a xs)
  show ?case
  proof (cases pre)
    case Nil
    with Cons.prems show ?thesis by simp
  next
    case (Cons b pre1)
    with Cons.prems have "a = b" and "xs @ ys = pre1 @ x # post" by simp_all
    with Cons.IH [of pre1] Cons show ?thesis by auto
  qed
qed

lemma split_after_prefix:
  "xs @ ys = pre @ x # post \<Longrightarrow> x \<notin> set xs \<Longrightarrow> \<exists>pre2. pre = xs @ pre2 \<and> ys = pre2 @ x # post"
  using split_at_call [of xs ys pre x post] by auto

lemma shell_loop_quit:
  "calls_of (shell_loop session lines h) = h @ ev \<Longrightarrow> ev = pre @ Quit True # post \<Longrightarrow>
   post = [] \<and> shell_loop session lines h = Returned (h @ ev)"
proof (induction lines arbitrary: h ev pre)
  case Nil
  from Nil.prems show ?case
    by (subst (asm) shell_loop.simps, subst shell_loop.simps)
       (auto simp: Let_def Cons_eq_append_conv split: if_splits)
next
  case (Cons cmd rest)
  let ?round = "[Stopped True, Quit False, Input ''wl debug $ '', Command cmd]"
  show ?case
  proof (cases "stopped session h \<and> \<not> quit session (h @ [Stopped True])")
    case False
    with Cons.prems show ?thesis
      by (subst (asm) shell_loop.simps, subst shell_loop.simps)
         (auto simp: Let_def Cons_eq_append_conv split: if_splits)
  next
    case True
    then have step: "shell_loop session (cmd # rest) h = shell_loop session rest (h @ ?round)"
      by (subst shell_loop.simps) (simp add: Let_def)
    obtain ev' where ev': "calls_of (shell_loop session rest (h @ ?round)) = (h @ ?round) @ ev'"
      using shell_loop_extends by blast
    with step Cons.prems(1) have ev: "ev = ?round @ ev'" by simp
    with Cons.prems(2) have "?round @ ev' = pre @ Quit True # post" by simp
    from split_after_prefix [OF this] obtain pre2 where "ev' = pre2 @ Quit True # post"
      by auto
    from Cons.IH [OF ev' this] step ev show ?thesis by simp
  qed
qed

lemma shell_loop_command:
  "calls_of (shell_loop session lines h) = h @ ev \<Longrightarrow> ev = pre @ Command cmd # post \<Longrightarrow>
   \<exists>pre'. pre = pre' @ [Stopped True, Quit False, Input ''wl debug $ ''] \<and>
          stopped session (h @ pre') \<and> \<not> quit session (h @ pre' @ [Stopped True])"
proof (induction lines arbitrary: h ev pre)
  case Nil
  from Nil.prems show ?case
    by (subst (asm) shell_loop.simps)
       (auto simp: Let_def Cons_eq_append_conv split: if_splits)
next
  case (Cons line rest)
  let ?round = "[Stopped True, Quit False, Input ''wl debug $ '', Command line]"
  show ?case
  proof (cases "stopped session h \<and> \<not> quit session (h @ [Stopped True])")
    case False
    with Cons.prems show ?thesis
      by (subst (asm) shell_loop.simps)
         (auto simp: Let_def Cons_eq_append_conv split: if_splits)
  next
    case True
    then have step: "shell_loop session (line # rest) h = shell_loop session rest (h @ ?round)"
      by (subst shell_loop.simps) (simp add: Let_def)
    obtain ev' where ev': "calls_of (shell_loop session rest (h @ ?round)) = (h @ ?round) @ ev'"
      using shell_loop_extends by blast
    with step Cons.prems(1) have ev: "ev = ?round @ ev'" by simp
    with Cons.prems(2) have "?round @ ev' = pre @ Command cmd # post" by simp
    from split_at_call [OF this] show ?thesis
    proof
      assume "\<exists>pre2. pre = ?round @ pre2 \<and> ev' = pre2 @ Command cmd # post"
      then obtain pre2 where pre: "pre = ?round @ pre2" and "ev' = pre2 @ Command cmd # post"
        by blast
      from Cons.IH [OF ev' this(2)] obtain pre' where
        "pre2 = pre' @ [Stopped True, Quit False, Input ''wl debug $ '']"
        "stopped session ((h @ ?round) @ pre')"
        "\<not> quit session ((h @ ?round) @ pre' @ [Stopped True])"
        by blast
      with pre show ?thesis
        by (intro exI [of _ "?round @ pre'"]) simp
    next
      assume "\<exists>post1. ?round = pre @ Command cmd # post1 \<and> post = post1 @ ev'"
      then have "pre = [Stopped True, Quit False, Input ''wl debug $ '']"
        by (auto simp: Cons_eq_append_conv)
      with True show ?thesis by simp
    qed
  qed
qed


lemma sessions_append: "sessions (h @ k) = sessions h @ sessions k"
  by (induction h) (auto split: call.splits)

lemma shell_only_sessions: "list_all shell_call ev \<Longrightarrow> sessions ev = []"
  by (induction ev) (auto simp: shell_call_def split: call.splits)

lemma message_loop_sessions:
  "message_loop tr (k, lt, h) = (k', lt', h') \<Longrightarrow> sessions h' = sessions h"
  by (induction tr arbitrary: k lt h) (auto simp: Let_def sessions_append split: if_splits)

lemma deliveries_closes [simp]: "deliveries (map (\<lambda>c. Close_connection c lt) ks) = []"
  by (induction ks) auto

lemma opens_closes [simp]: "opens (map (\<lambda>c. Close_connection c lt) ks) = []"
  by (induction ks) auto

lemma sessions_closes [simp]: "sessions (map (\<lambda>c. Close_connection c lt) ks) = []"
  by (induction ks) auto

lemma closes_closes [simp]:
  "closes (map (\<lambda>c. Close_connection c lt) ks) = map (\<lambda>c. (c, lt)) ks"
  by (induction ks) auto

text \<open>
  The shape of a run of \<^verbatim>\<open>parse_messages\<close>: the calls of the record loop, one close per
  known connection, then the calls of the shell and the final log line.
\<close>

lemma parse_messages_shape:
  assumes loop: "message_loop tr ([], 0, h @ [Out_log ''Parsing messages'']) = (k', lt', h2)"
  shows "\<exists>sh. calls_of (parse_messages session tr allow_shell h) =
               h2 @ map (\<lambda>c. Close_connection c lt') (dict_keys k') @ sh \<and>
             deliveries sh = [] \<and> opens sh = [] \<and> closes sh = [] \<and> sessions sh = [] \<and>
             (\<forall>pre post. sh = pre @ Quit True # post \<longrightarrow> post = [Out_log ''Done''])"
proof (cases allow_shell)
  case False
  with loop show ?thesis
    by (simp add: parse_messages_def close_loop_eq Cons_eq_append_conv)
next
  case True
  let ?h3 = "h2 @ map (\<lambda>c. Close_connection c lt') (dict_keys k')"
  obtain ev where ev: "calls_of (shell_loop session (stdin_lines session) ?h3) = ?h3 @ ev"
    and only: "list_all shell_call ev"
    using shell_loop_extends by blast
  have quit_last: "post = [] \<and> shell_loop session (stdin_lines session) ?h3 = Returned (?h3 @ ev)"
    if "ev = pre @ Quit True # post" for pre post
    using shell_loop_quit [OF ev that] .
  show ?thesis
  proof (cases "shell_loop session (stdin_lines session) ?h3")
    case (Returned h4)
    with ev have h4: "h4 = ?h3 @ ev" by simp
    have "post = [Out_log ''Done'']" if eq: "ev @ [Out_log ''Done''] = pre @ Quit True # post"
      for pre post
    proof -
      from split_at_call [OF eq] show ?thesis
      proof
        assume "\<exists>pre2. pre = ev @ pre2 \<and> [Out_log ''Done''] = pre2 @ Quit True # post"
        then show ?thesis by (auto simp: Cons_eq_append_conv)
      next
        assume "\<exists>post1. ev = pre @ Quit True # post1 \<and> post = post1 @ [Out_log ''Done'']"
        then obtain post1 where "ev = pre @ Quit True # post1" "post = post1 @ [Out_log ''Done'']"
          by blast
        with quit_last [of pre post1] show ?thesis by simp
      qed
    qed
    with True loop Returned h4 only show ?thesis
      by (intro exI [of _ "ev @ [Out_log ''Done'']"])
         (simp add: parse_messages_def close_loop_eq interactive_shell_def
            deliveries_append opens_append closes_append sessions_append
            shell_only_deliveries shell_only_opens shell_only_closes shell_only_sessions)
  next
    case (Raised e h4)
    with ev have h4: "h4 = ?h3 @ ev" by simp
    from Raised quit_last have "ev \<noteq> pre @ Quit True # post" for pre post
      by auto
    with True loop Raised h4 only show ?thesis
      by (intro exI [of _ ev])
         (simp add: parse_messages_def close_loop_eq interactive_shell_def
            shell_only_deliveries shell_only_opens shell_only_closes shell_only_sessions)
  next
    case (Exited n h4)
    with ev have h4: "h4 = ?h3 @ ev" by simp
    from Exited quit_last have "ev \<noteq> pre @ Quit True # post" for pre post
      by auto
    with True loop Exited h4 only show ?thesis
      by (intro exI [of _ ev])
         (simp add: parse_messages_def close_loop_eq interactive_shell_def
            shell_only_deliveries shell_only_opens shell_only_closes shell_only_sessions)
  qed
qed


lemma record_call_simps [simp]:
  "record_call (Open_connection c i t)" "record_call (Message c m)"
  by (simp_all add: record_call_def)

lemma message_loop_first:
  "message_loop tr (k, lt, h) = (k', lt', h') \<Longrightarrow> c \<notin> set (dict_keys k) \<Longrightarrow>
   first_record c tr = Some m \<Longrightarrow>
   (c, if name m = ''get_registry'' then Some (\<not> sent m) else None, timestamp m)
     \<in> set (opens (drop (length h) h'))"
proof (induction tr arbitrary: k lt h)
  case Nil
  then show ?case by (simp add: first_record_def)
next
  case (Cons r rest)
  obtain c0 m0 where r: "r = (c0, m0)" by (cases r)
  show ?case
  proof (cases "c0 = c")
    case True
    with Cons.prems(3) r have m: "m0 = m" by (simp add: first_record_def)
    let ?open = "Open_connection c (if name m = ''get_registry'' then Some (\<not> sent m) else None)
                   (timestamp m) :: ('a, 'b, 'c) call"
    from True m r Cons.prems(1,2)
    have "message_loop rest (dict_set k c True, timestamp m, (h @ [?open]) @ [Message c m])
            = (k', lt', h')"
      by (simp add: Let_def dict_contains_keys)
    from message_loop_opened_first [OF this] obtain ev where
      "h' = ((h @ [?open]) @ [Message c m]) @ ev" by blast
    then show ?thesis by (simp add: opens_append)
  next
    case False
    with Cons.prems(3) r have first: "first_record c rest = Some m"
      by (simp add: first_record_def)
    show ?thesis
    proof (cases "dict_contains k c0")
      case True
      with Cons.prems(1) r
      have loop: "message_loop rest (k, timestamp m0, h @ [Message c0 m0]) = (k', lt', h')"
        by (simp add: Let_def)
      from message_loop_opened_first [OF loop] obtain ev where h': "h' = (h @ [Message c0 m0]) @ ev"
        by blast
      from Cons.IH [OF loop Cons.prems(2) first] h' show ?thesis by simp
    next
      case notin: False
      let ?is = "if name m0 = ''get_registry'' then Some (\<not> sent m0) else None"
      from notin Cons.prems(1) r
      have loop: "message_loop rest (dict_set k c0 True, timestamp m0,
              h @ [Open_connection c0 ?is (timestamp m0)] @ [Message c0 m0]) = (k', lt', h')"
        by (simp add: Let_def)
      from message_loop_opened_first [OF loop] obtain ev where
        h': "h' = (h @ [Open_connection c0 ?is (timestamp m0)] @ [Message c0 m0]) @ ev"
        by blast
      from notin False Cons.prems(2) have "c \<notin> set (dict_keys (dict_set k c0 True))"
        by (simp add: dict_keys_set_new)
      from Cons.IH [OF loop this first] h' show ?thesis by simp
    qed
  qed
qed

lemma message_loop_only:
  "message_loop tr (k, lt, h) = (k', lt', h') \<Longrightarrow>
   \<exists>ev. h' = h @ ev \<and> list_all record_call ev"
proof (induction tr arbitrary: k lt h)
  case Nil
  then show ?case by simp
next
  case (Cons r rest)
  obtain c0 m0 where r: "r = (c0, m0)" by (cases r)
  show ?case
  proof (cases "dict_contains k c0")
    case True
    with Cons.prems r
    have "message_loop rest (k, timestamp m0, h @ [Message c0 m0]) = (k', lt', h')"
      by (simp add: Let_def)
    from Cons.IH [OF this] obtain ev where "h' = (h @ [Message c0 m0]) @ ev"
      "list_all record_call ev"
      by blast
    then show ?thesis
      by (intro exI [of _ "Message c0 m0 # ev"]) simp
  next
    case False
    let ?is = "if name m0 = ''get_registry'' then Some (\<not> sent m0) else None"
    from False Cons.prems r
    have "message_loop rest (dict_set k c0 True, timestamp m0,
              h @ [Open_connection c0 ?is (timestamp m0)] @ [Message c0 m0]) = (k', lt', h')"
      by (simp add: Let_def)
    from Cons.IH [OF this] obtain ev where
      "h' = (h @ [Open_connection c0 ?is (timestamp m0)] @ [Message c0 m0]) @ ev"
      "list_all record_call ev"
      by blast
    then show ?thesis
      by (intro exI [of _ "Open_connection c0 ?is (timestamp m0) # Message c0 m0 # ev"]) simp
  qed
qed


lemma record_only_closes: "list_all record_call ev \<Longrightarrow> closes ev = []"
  by (induction ev) (auto simp: record_call_def split: call.splits)

lemma record_only_sessions: "list_all record_call ev \<Longrightarrow> sessions ev = []"
  by (induction ev) (auto simp: record_call_def split: call.splits)

lemma record_only_quit: "list_all record_call ev \<Longrightarrow> Quit b \<notin> set ev"
  by (induction ev) (auto simp: record_call_def split: call.splits)

text \<open>Everything the properties need about one run of \<^verbatim>\<open>parse_messages\<close>.\<close>

lemma parse_messages_run:
  "\<exists>lev keys lt sh.
     calls_of (parse_messages session tr allow_shell h) =
       h @ [Out_log ''Parsing messages''] @ lev @ map (\<lambda>c. Close_connection c lt) keys @ sh \<and>
     list_all record_call lev \<and> deliveries lev = tr \<and>
     map fst (opens lev) = keys \<and> distinct keys \<and> set keys = fst ` set tr \<and>
     lt = (if tr = [] then 0 else timestamp (snd (last tr))) \<and>
     (\<forall>pre c m post. lev = pre @ Message c m # post \<longrightarrow> c \<in> fst ` set (opens pre)) \<and>
     (\<forall>c m. first_record c tr = Some m \<longrightarrow>
        (c, if name m = ''get_registry'' then Some (\<not> sent m) else None, timestamp m)
          \<in> set (opens lev)) \<and>
     deliveries sh = [] \<and> opens sh = [] \<and> closes sh = [] \<and> sessions sh = [] \<and>
     (\<forall>pre post. sh = pre @ Quit True # post \<longrightarrow> post = [Out_log ''Done''])"
proof -
  let ?h1 = "h @ [Out_log ''Parsing messages'']"
  obtain k' lt' h2 where loop: "message_loop tr ([], 0, ?h1) = (k', lt', h2)"
    by (cases "message_loop tr ([], 0::'b, ?h1)") auto
  from message_loop_only [OF loop] obtain lev where h2: "h2 = ?h1 @ lev"
    and only: "list_all record_call lev" by blast
  from message_loop_deliveries [OF loop] h2 have del: "deliveries lev = tr"
    by (simp add: deliveries_append)
  from message_loop_keys [OF loop] h2 have keys: "map fst (opens lev) = dict_keys k'"
    "distinct (dict_keys k')" "set (dict_keys k') = fst ` set tr"
    by (auto simp: opens_append dict_keys_def)
  from message_loop_last_time [OF loop]
  have lt: "lt' = (if tr = [] then 0 else timestamp (snd (last tr)))" .
  from message_loop_opened_first [OF loop] h2
  have first: "\<forall>pre c m post. lev = pre @ Message c m # post \<longrightarrow> c \<in> fst ` set (opens pre)"
    by (simp add: dict_keys_def)
  have hint: "(c, if name m = ''get_registry'' then Some (\<not> sent m) else None, timestamp m)
                \<in> set (opens lev)" if "first_record c tr = Some m" for c m
    using message_loop_first [OF loop _ that] h2 by (simp add: dict_keys_def)
  from parse_messages_shape [OF loop, of session allow_shell] obtain sh where
    "calls_of (parse_messages session tr allow_shell h) =
       h2 @ map (\<lambda>c. Close_connection c lt') (dict_keys k') @ sh"
    "deliveries sh = []" "opens sh = []" "closes sh = []" "sessions sh = []"
    "\<forall>pre post. sh = pre @ Quit True # post \<longrightarrow> post = [Out_log ''Done'']"
    by blast
  with h2 only del keys lt first hint show ?thesis
    by (intro exI [of _ lev] exI [of _ "dict_keys k'"] exI [of _ lt'] exI [of _ sh]) simp
qed


lemma deliveries_mid: "deliveries (pre @ Message c m # post) \<noteq> []"
  by (simp add: deliveries_append)

lemma closes_mid: "closes (pre @ Close_connection c t # post) = closes pre @ (c, t) # closes post"
  by (simp add: closes_append)

lemma deliveries_prefix_empty: "deliveries (pre @ post) = [] \<Longrightarrow> deliveries pre = []"
  by (simp add: deliveries_append)

lemma filter_key_distinct:
  "distinct (map fst xs) \<Longrightarrow> (c, v) \<in> set xs \<Longrightarrow> filter (\<lambda>p. fst p = c) xs = [(c, v)]"
proof (induction xs)
  case Nil
  then show ?case by simp
next
  case (Cons p xs)
  show ?case
  proof (cases "fst p = c")
    case True
    with Cons.prems have "c \<notin> fst ` set xs" by simp
    then have none: "filter (\<lambda>p. fst p = c) xs = []"
      by (auto simp: filter_empty_conv)
    from \<open>c \<notin> fst ` set xs\<close> Cons.prems(2) have "p = (c, v)"
      by (auto simp: image_iff)
    with none show ?thesis by simp
  next
    case False
    with Cons show ?thesis by auto
  qed
qed

subsection \<open>Delivery of the records, and the shell\<close>

text \<open>
  Claim C1. For every finite decoded trace, the records delivered to \<^verbatim>\<open>Session.message\<close>
  by a run of \<^verbatim>\<open>parse_messages\<close> are exactly the records of the trace, each once and
  in the order of the trace: the deliveries in the history after the run are those
  before it followed by the trace. This holds with and without the shell, and however
  the run ends.
\<close>

theorem parse_messages_delivers_in_order:
  "deliveries (calls_of (parse_messages session tr allow_shell h)) = deliveries h @ tr"
proof -
  from parse_messages_run [of session tr allow_shell h] obtain lev keys lt sh where
    "calls_of (parse_messages session tr allow_shell h) =
       h @ [Out_log ''Parsing messages''] @ lev @ map (\<lambda>c. Close_connection c lt) keys @ sh"
    "deliveries lev = tr" "deliveries sh = []"
    by blast
  then show ?thesis
    by (simp add: deliveries_append)
qed

text \<open>The run on the demo trace, with the shell: the five records, in order.\<close>

theorem parse_messages_delivers_in_order_witness:
  "deliveries (calls_of (parse_messages demo_env demo_trace True [])) = demo_trace"
  using parse_messages_delivers_in_order [of demo_env demo_trace True "[]"] by simp

text \<open>
  Claim C4. On the one-record trace
  \<^verbatim>\<open>[(t=0, conn=1, sent, obj=1, "get_registry", [])]\<close> the run opens exactly one
  connection, connection 1, with \<^verbatim>\<open>is_server = False\<close> (a client) at time 0, whatever
  the session and with or without the shell.
\<close>

theorem get_registry_sent_opens_client:
  "opens (calls_of (parse_messages session
     [(1::nat, \<lparr>timestamp = 0::int, sent = True, obj = 1, name = ''get_registry'',
                arguments = []\<rparr>)] allow_shell h))
   = opens h @ [(1, Some False, 0)]"
proof -
  let ?m = "\<lparr>timestamp = 0::int, sent = True, obj = 1, name = ''get_registry'',
             arguments = []\<rparr>"
  have loop: "message_loop [(1::nat, ?m)] ([], 0, h @ [Out_log ''Parsing messages'']) =
      ([(1, True)], 0,
       h @ [Out_log ''Parsing messages'', Open_connection 1 (Some False) 0, Message 1 ?m])"
    by (simp add: dict_contains_def dict_set_def)
  from parse_messages_shape [OF loop, of session allow_shell] obtain sh where
    "calls_of (parse_messages session [(1, ?m)] allow_shell h) =
       (h @ [Out_log ''Parsing messages'', Open_connection 1 (Some False) 0, Message 1 ?m]) @
       map (\<lambda>c. Close_connection c 0) (dict_keys [(1::nat, True)]) @ sh"
    "opens sh = []"
    by blast
  then show ?thesis
    by (simp add: opens_append)
qed

text \<open>The same run with the demo session and the shell.\<close>

theorem get_registry_sent_opens_client_witness:
  "opens (calls_of (parse_messages demo_env
     [(1::nat, \<lparr>timestamp = 0::int, sent = True, obj = 1, name = ''get_registry'',
                arguments = []\<rparr>)] True []))
   = [(1, Some False, 0)]"
  using get_registry_sent_opens_client [of demo_env True "[]"] by simp

text \<open>
  Claim C6. In a run of \<^verbatim>\<open>interactive_shell\<close> every call of \<^verbatim>\<open>session.command\<close> comes
  right after a call of \<^verbatim>\<open>session.stopped()\<close> that answered true, a call of
  \<^verbatim>\<open>session.quit()\<close> that answered false and the read of the command line, in this
  order and with nothing in between; the two answers are those of the session at that
  point of the history.
\<close>

theorem interactive_shell_command_guarded:
  assumes "calls_of (interactive_shell session h) = h @ ev"
    and "ev = pre @ Command cmd # post"
  shows "\<exists>pre'. pre = pre' @ [Stopped True, Quit False, Input ''wl debug $ ''] \<and>
           stopped session (h @ pre') \<and> \<not> quit session (h @ pre' @ [Stopped True])"
  using assms unfolding interactive_shell_def by (rule shell_loop_command)

text \<open>
  The demo session, stopped by a \<^verbatim>\<open>destroy\<close> message, reads \<^verbatim>\<open>help\<close> and \<^verbatim>\<open>quit\<close>; the
  second command is issued while the session is stopped and has not quit.
\<close>

lemma demo_shell_run:
  "calls_of (interactive_shell demo_env [Message 1 (demo_msg 7 True 4 ''destroy'')]) =
     [Message 1 (demo_msg 7 True 4 ''destroy'')] @
     [Stopped True, Quit False, Input ''wl debug $ '', Command ''help'',
      Stopped True, Quit False, Input ''wl debug $ '', Command ''quit'',
      Stopped True, Quit True]"
  by (simp add: interactive_shell_def shell_loop.simps demo_env_def demo_flags_def
        demo_step_def demo_msg_def)

theorem interactive_shell_command_guarded_witness:
  "calls_of (interactive_shell demo_env [Message 1 (demo_msg 7 True 4 ''destroy'')]) =
     [Message 1 (demo_msg 7 True 4 ''destroy'')] @
     [Stopped True, Quit False, Input ''wl debug $ '', Command ''help'',
      Stopped True, Quit False, Input ''wl debug $ '', Command ''quit'',
      Stopped True, Quit True] \<and>
   stopped demo_env
     ([Message 1 (demo_msg 7 True 4 ''destroy'')] @
      [Stopped True, Quit False, Input ''wl debug $ '', Command ''help'']) \<and>
   \<not> quit demo_env
     ([Message 1 (demo_msg 7 True 4 ''destroy'')] @
      [Stopped True, Quit False, Input ''wl debug $ '', Command ''help''] @ [Stopped True])"
proof -
  have split: "[Stopped True, Quit False, Input ''wl debug $ '', Command ''help'',
      Stopped True, Quit False, Input ''wl debug $ '', Command ''quit'',
      Stopped True, Quit True]
    = [Stopped True, Quit False, Input ''wl debug $ '', Command ''help'',
       Stopped True, Quit False, Input ''wl debug $ ''] @ Command ''quit'' #
      [Stopped True, Quit True :: (nat, int, string) call]"
    by simp
  from interactive_shell_command_guarded [OF demo_shell_run split] demo_shell_run
  show ?thesis by simp
qed


subsection \<open>Runs of the demo session\<close>

lemma demo_parse_run:
  "parse_messages demo_env demo_trace True [] = Returned ([] @ demo_calls)"
  by (simp add: parse_messages_def interactive_shell_def shell_loop.simps demo_env_def
        demo_flags_def demo_step_def demo_msg_def demo_trace_def dict_contains_def
        dict_set_def dict_keys_def demo_calls_def)

lemma demo_calls_run:
  "calls_of (parse_messages demo_env demo_trace True []) = [] @ demo_calls"
  using demo_parse_run by simp

lemma demo_calls_bind:
  "demo_calls = take 5 demo_calls @ Message 1 (demo_msg 5 True 2 ''bind'') # drop 6 demo_calls"
  by (simp add: demo_calls_def)

lemma demo_calls_close:
  "demo_calls = take 9 demo_calls @ Close_connection 1 7 # drop 10 demo_calls"
  by (simp add: demo_calls_def)

subsection \<open>Connections\<close>

text \<open>
  Claim C9. In the calls of one run of \<^verbatim>\<open>parse_messages\<close> on a finite trace:
  \<^item> \<^verbatim>\<open>open_connection\<close> is called once for each connection id of the trace and for no
    other id;
  \<^item> every \<^verbatim>\<open>Session.message\<close> call for an id comes after the \<^verbatim>\<open>open_connection\<close> call
    for that id;
  \<^item> \<^verbatim>\<open>close_connection\<close> is called once for each connection id of the trace and for
    no other id;
  \<^item> every \<^verbatim>\<open>close_connection\<close> call comes after all records have been delivered, and
    its time is the timestamp of the last record of the whole trace.
\<close>

theorem parse_messages_opens_and_closes:
  assumes run: "calls_of (parse_messages session tr allow_shell h) = h @ ev"
  shows "distinct (map fst (opens ev)) \<and> set (map fst (opens ev)) = fst ` set tr \<and>
         (\<forall>pre c m post. ev = pre @ Message c m # post \<longrightarrow> c \<in> fst ` set (opens pre)) \<and>
         distinct (map fst (closes ev)) \<and> set (map fst (closes ev)) = fst ` set tr \<and>
         (\<forall>pre c t post. ev = pre @ Close_connection c t # post \<longrightarrow>
            deliveries pre = tr \<and> tr \<noteq> [] \<and> t = timestamp (snd (last tr)))"
proof -
  from parse_messages_run [of session tr allow_shell h] obtain lev keys lt sh where
    calls: "calls_of (parse_messages session tr allow_shell h) =
       h @ [Out_log ''Parsing messages''] @ lev @ map (\<lambda>c. Close_connection c lt) keys @ sh"
    and only: "list_all record_call lev" and del: "deliveries lev = tr"
    and keys: "map fst (opens lev) = keys" "distinct keys" "set keys = fst ` set tr"
    and lt: "lt = (if tr = [] then 0 else timestamp (snd (last tr)))"
    and first: "\<forall>pre c m post. lev = pre @ Message c m # post \<longrightarrow> c \<in> fst ` set (opens pre)"
    and sh: "deliveries sh = []" "opens sh = []" "closes sh = []"
    by blast
  let ?front = "[Out_log ''Parsing messages''] @ lev"
  let ?after = "map (\<lambda>c. Close_connection c lt) keys @ sh"
  from calls run have ev: "ev = ?front @ ?after" by simp
  from ev sh have opens_ev: "opens ev = opens lev"
    by (simp add: opens_append)
  from ev sh only have closes_ev: "closes ev = map (\<lambda>c. (c, lt)) keys"
    by (simp add: closes_append record_only_closes)
  have after_del: "deliveries ?after = []"
    using sh by (simp add: deliveries_append)
  have front_closes: "closes ?front = []"
    using only by (simp add: record_only_closes)
  have opened: "c \<in> fst ` set (opens pre)" if eq: "ev = pre @ Message c m # post"
    for pre c m post
  proof -
    from eq ev have "?front @ ?after = pre @ Message c m # post" by simp
    from split_at_call [OF this] show ?thesis
    proof
      assume "\<exists>pre2. pre = ?front @ pre2 \<and> ?after = pre2 @ Message c m # post"
      then obtain pre2 where "?after = pre2 @ Message c m # post" by blast
      with after_del deliveries_mid [of pre2 c m post] show ?thesis by simp
    next
      assume "\<exists>post1. ?front = pre @ Message c m # post1 \<and> post = post1 @ ?after"
      then obtain post1 where front: "?front = pre @ Message c m # post1" by blast
      then obtain pre1 where pre: "pre = Out_log ''Parsing messages'' # pre1"
        and "lev = pre1 @ Message c m # post1"
        by (cases pre) auto
      with first have "c \<in> fst ` set (opens pre1)" by blast
      with pre show ?thesis by simp
    qed
  qed
  have closed: "deliveries pre = tr \<and> tr \<noteq> [] \<and> t = timestamp (snd (last tr))"
    if eq: "ev = pre @ Close_connection c t # post" for pre c t post
  proof -
    from eq have "(c, t) \<in> set (closes ev)" by (simp add: closes_mid)
    with closes_ev have "t = lt" and "c \<in> set keys" by auto
    with keys(3) have "tr \<noteq> []" by auto
    with lt \<open>t = lt\<close> have t: "t = timestamp (snd (last tr))" by simp
    from eq ev have "?front @ ?after = pre @ Close_connection c t # post" by simp
    from split_at_call [OF this] have "deliveries pre = tr"
    proof
      assume "\<exists>pre2. pre = ?front @ pre2 \<and> ?after = pre2 @ Close_connection c t # post"
      then obtain pre2 where pre: "pre = ?front @ pre2"
        and "?after = pre2 @ Close_connection c t # post" by blast
      with after_del have "deliveries pre2 = []"
        using deliveries_prefix_empty [of pre2 "Close_connection c t # post"] by simp
      with pre del show ?thesis by (simp add: deliveries_append)
    next
      assume "\<exists>post1. ?front = pre @ Close_connection c t # post1 \<and> post = post1 @ ?after"
      then obtain post1 where "?front = pre @ Close_connection c t # post1" by blast
      then have "closes ?front = closes (pre @ Close_connection c t # post1)" by simp
      with front_closes show ?thesis by (simp add: closes_append)
    qed
    with \<open>tr \<noteq> []\<close> t show ?thesis by simp
  qed
  from keys opens_ev closes_ev opened closed show ?thesis
    by (simp add: comp_def)
qed

text \<open>
  On the demo trace: three connections opened and closed once each, connection 1 opened
  before its \<^verbatim>\<open>bind\<close> message, and the first close after all five records, at time 7.
\<close>

theorem parse_messages_opens_and_closes_witness:
  "calls_of (parse_messages demo_env demo_trace True []) = [] @ demo_calls \<and>
   distinct (map fst (opens demo_calls)) \<and>
   set (map fst (opens demo_calls)) = fst ` set demo_trace \<and>
   1 \<in> fst ` set (opens (take 5 demo_calls)) \<and>
   distinct (map fst (closes demo_calls)) \<and>
   set (map fst (closes demo_calls)) = fst ` set demo_trace \<and>
   deliveries (take 9 demo_calls) = demo_trace \<and> demo_trace \<noteq> [] \<and>
   7 = timestamp (snd (last demo_trace))"
proof -
  note all = parse_messages_opens_and_closes [OF demo_calls_run]
  from all have opens: "distinct (map fst (opens demo_calls))"
    "set (map fst (opens demo_calls)) = fst ` set demo_trace" by simp_all
  from all have closes: "distinct (map fst (closes demo_calls))"
    "set (map fst (closes demo_calls)) = fst ` set demo_trace" by simp_all
  from all have "\<forall>pre c m post. demo_calls = pre @ Message c m # post \<longrightarrow>
      c \<in> fst ` set (opens pre)" by simp
  from this [rule_format, OF demo_calls_bind]
  have opened: "1 \<in> fst ` set (opens (take 5 demo_calls))" .
  from all have "\<forall>pre c t post. demo_calls = pre @ Close_connection c t # post \<longrightarrow>
      deliveries pre = demo_trace \<and> demo_trace \<noteq> [] \<and> t = timestamp (snd (last demo_trace))"
    by simp
  from this [rule_format, OF demo_calls_close]
  have closed: "deliveries (take 9 demo_calls) = demo_trace \<and> demo_trace \<noteq> [] \<and>
      7 = timestamp (snd (last demo_trace))" .
  from demo_calls_run opens opened closes closed show ?thesis by simp
qed

text \<open>
  Claim C3, as the code has it. The role a connection is opened with is inferred from the
  first record of that connection in the trace, and from no later one: when that record
  is named \<^verbatim>\<open>get_registry\<close> the connection is opened as a client if the record was sent
  and as a server if it was received; otherwise it is opened with the role unknown
  (\<^verbatim>\<open>None\<close>). This is the only \<^verbatim>\<open>open_connection\<close> call for the connection.
\<close>

theorem connection_opened_from_first_record:
  assumes run: "calls_of (parse_messages session tr allow_shell h) = h @ ev"
    and first: "first_record c tr = Some m"
  shows "filter (\<lambda>p. fst p = c) (opens ev) =
           [(c, if name m = ''get_registry'' then Some (\<not> sent m) else None, timestamp m)]"
proof -
  from parse_messages_run [of session tr allow_shell h] obtain lev keys lt sh where
    calls: "calls_of (parse_messages session tr allow_shell h) =
       h @ [Out_log ''Parsing messages''] @ lev @ map (\<lambda>c. Close_connection c lt) keys @ sh"
    and keys: "map fst (opens lev) = keys" "distinct keys"
    and hint: "\<forall>c m. first_record c tr = Some m \<longrightarrow>
        (c, if name m = ''get_registry'' then Some (\<not> sent m) else None, timestamp m)
          \<in> set (opens lev)"
    and sh: "opens sh = []"
    by blast
  from calls run sh have ev: "opens ev = opens lev"
    by (simp add: opens_append)
  from keys have dist: "distinct (map fst (opens lev))" by simp
  from hint first
  have mem: "(c, if name m = ''get_registry'' then Some (\<not> sent m) else None, timestamp m)
          \<in> set (opens lev)" by blast
  from filter_key_distinct [OF dist mem] ev show ?thesis by simp
qed

text \<open>Connection 2 of the demo trace starts with a received \<^verbatim>\<open>get_registry\<close>: a server.\<close>

theorem connection_opened_from_first_record_witness:
  "first_record 2 demo_trace = Some (demo_msg 3 False 1 ''get_registry'') \<and>
   filter (\<lambda>p. fst p = 2) (opens demo_calls) = [(2, Some True, 3)]"
proof -
  have first: "first_record 2 demo_trace = Some (demo_msg 3 False 1 ''get_registry'')"
    by (simp add: first_record_def demo_trace_def)
  from connection_opened_from_first_record [OF demo_calls_run first] first
  show ?thesis by (simp add: demo_msg_def)
qed

text \<open>
  Claim C3 as stated fails: on a connection whose first record is \<^verbatim>\<open>sync\<close> and whose
  second record is a sent \<^verbatim>\<open>get_registry\<close>, the connection is opened with the role
  unknown although a \<^verbatim>\<open>get_registry\<close> record is seen on it, and no later call gives the
  session a role.
\<close>

theorem late_get_registry_counterexample:
  "parse_messages demo_env
     [(1, demo_msg 0 True 1 ''sync''), (1, demo_msg 1 True 1 ''get_registry'')] False [] =
   Returned
     [Out_log ''Parsing messages'', Open_connection 1 None 0,
      Message 1 (demo_msg 0 True 1 ''sync''), Message 1 (demo_msg 1 True 1 ''get_registry''),
      Close_connection 1 1, Out_log ''Done'']"
  by (simp add: parse_messages_def demo_msg_def dict_contains_def dict_set_def dict_keys_def)

subsection \<open>The state of the session\<close>












subsection \<open>The command line\<close>

text \<open>
  Nothing after the construction of the session constructs another one, and the part of
  \<^verbatim>\<open>main\<close> before it constructs none.
\<close>

lemma parse_messages_sessions:
  "sessions (calls_of (parse_messages session tr allow_shell h)) = sessions h"
proof -
  from parse_messages_run [of session tr allow_shell h] obtain lev keys lt sh where
    "calls_of (parse_messages session tr allow_shell h) =
       h @ [Out_log ''Parsing messages''] @ lev @ map (\<lambda>c. Close_connection c lt) keys @ sh"
    "list_all record_call lev" "sessions sh = []"
    by blast
  then show ?thesis
    by (simp add: sessions_append record_only_sessions)
qed

lemma piped_input_main_sessions:
  "sessions (calls_of (piped_input_main session h)) = sessions h"
  by (simp add: piped_input_main_def parse_messages_sessions sessions_append)

lemma except_FileNotFoundError_sessions:
  "sessions (calls_of (except_FileNotFoundError file_path e h)) = sessions h"
  by (simp add: except_FileNotFoundError_def sessions_append)

lemma file_input_main_sessions:
  "sessions (calls_of (file_input_main session file_path h)) = sessions h"
proof (cases "open_file session file_path")
  case (Inl e)
  then show ?thesis
    by (simp add: file_input_main_def except_FileNotFoundError_sessions sessions_append)
next
  case (Inr input_file)
  let ?h2 = "h @ [Out_log (''Opening '' @ file_path)] @ [Open_file file_path]"
  have run: "sessions (calls_of (parse_messages session input_file True ?h2)) = sessions h"
    by (simp add: parse_messages_sessions sessions_append)
  show ?thesis
  proof (cases "parse_messages session input_file True ?h2")
    case (Returned h3)
    with run Inr show ?thesis
      by (simp add: file_input_main_def sessions_append)
  next
    case (Raised e h3)
    with run Inr show ?thesis
      by (simp add: file_input_main_def except_FileNotFoundError_sessions)
  next
    case (Exited n h3)
    with run Inr show ?thesis
      by (simp add: file_input_main_def)
  qed
qed

lemma main_input_sessions:
  "sessions (calls_of (main_input env args h)) = sessions h"
  by (simp add: main_input_def Let_def truthy_def sessions_append
        file_input_main_sessions piped_input_main_sessions split: option.splits)

lemma build_matcher_handled:
  assumes "handled env query"
  shows "\<exists>m ev. build_matcher env label query fallback h = Returned (m, h @ ev) \<and>
           sessions ev = [] \<and>
           (\<not> truthy query \<longrightarrow> m = fallback \<and> ev = []) \<and>
           (\<forall>q e. query = Some q \<and> q \<noteq> [] \<and> matcher_parse env q = Inl (RuntimeError e) \<longrightarrow>
              m = fallback \<and> ev = [Out_error e]) \<and>
           (\<forall>q parsed. query = Some q \<and> q \<noteq> [] \<and> matcher_parse env q = Inr parsed \<longrightarrow>
              m = simplify env parsed \<and>
              ev = [Out_log (label @ str_matcher env (simplify env parsed))])"
  using assms
  by (auto simp: build_matcher_def handled_def truthy_def Let_def
        split: option.splits sum.splits py_exception.splits if_splits)

lemma main_setup:
  assumes "\<not> args_gdb args" "\<not> args_matcher_help args"
  shows "\<exists>pre. sessions pre = [] \<and> main env args h =
     (case build_matcher env ''Filter matcher: '' (args_f args) (matcher_always env) (h @ pre) of
        Raised e (m, h7) \<Rightarrow> Raised e h7
      | Exited n (m, h7) \<Rightarrow> Exited n h7
      | Returned (filter_matcher, h7) \<Rightarrow>
          (case build_matcher env ''Break matcher: '' (args_b args) (matcher_never env) h7 of
             Raised e (m, h8) \<Rightarrow> Raised e h8
           | Exited n (m, h8) \<Rightarrow> Exited n h8
           | Returned (stop_matcher, h8) \<Rightarrow>
               main_input env args
                 (h8 @ [Protocol_load_all, New_session filter_matcher stop_matcher])))"
  using assms
  by (intro exI [of _
        "[if check_gdb env then Gdb_output_streams else Std_streams] @
         (if args_no_color args then [Set_color_output False]
          else if args_color args then [Set_color_output True] else []) @
         [New_output (args_verbose args) (\<not> args_supress args)] @
         (if args_verbose args then [Set_verbose True, Out_log ''Verbose output enabled'']
          else []) @
         (if args_no_color args then
            (if args_color args
             then [Out_warn ''Ignoring --color, since --no-color was also specified'']
             else []) @ [Out_log ''Color output disabled'']
          else if args_color args then [Out_log (color_banner env)] else []) @
         (if \<not> args_supress args then [Out_log ''Showing unparsable output''] else [])"])
     (simp add: main_def Let_def sessions_append)

lemma main_builds_session:
  assumes "\<not> args_gdb args" "\<not> args_matcher_help args"
    and "handled env (args_f args)" "handled env (args_b args)"
  shows "\<exists>pre fm fev sm sev.
     sessions pre = [] \<and> sessions fev = [] \<and> sessions sev = [] \<and>
     (\<not> truthy (args_f args) \<longrightarrow> fm = matcher_always env \<and> fev = []) \<and>
     (\<forall>q e. args_f args = Some q \<and> q \<noteq> [] \<and> matcher_parse env q = Inl (RuntimeError e) \<longrightarrow>
        fm = matcher_always env \<and> fev = [Out_error e]) \<and>
     (\<forall>q parsed. args_f args = Some q \<and> q \<noteq> [] \<and> matcher_parse env q = Inr parsed \<longrightarrow>
        fm = simplify env parsed \<and>
        fev = [Out_log (''Filter matcher: '' @ str_matcher env (simplify env parsed))]) \<and>
     (\<not> truthy (args_b args) \<longrightarrow> sm = matcher_never env \<and> sev = []) \<and>
     (\<forall>q e. args_b args = Some q \<and> q \<noteq> [] \<and> matcher_parse env q = Inl (RuntimeError e) \<longrightarrow>
        sm = matcher_never env \<and> sev = [Out_error e]) \<and>
     (\<forall>q parsed. args_b args = Some q \<and> q \<noteq> [] \<and> matcher_parse env q = Inr parsed \<longrightarrow>
        sm = simplify env parsed \<and>
        sev = [Out_log (''Break matcher: '' @ str_matcher env (simplify env parsed))]) \<and>
     main env args h =
       main_input env args (h @ (pre @ fev @ sev) @ [Protocol_load_all, New_session fm sm])"
proof -
  from main_setup [OF assms(1,2), of env h] obtain pre where pre: "sessions pre = []"
    and main: "main env args h =
     (case build_matcher env ''Filter matcher: '' (args_f args) (matcher_always env) (h @ pre) of
        Raised e (m, h7) \<Rightarrow> Raised e h7
      | Exited n (m, h7) \<Rightarrow> Exited n h7
      | Returned (filter_matcher, h7) \<Rightarrow>
          (case build_matcher env ''Break matcher: '' (args_b args) (matcher_never env) h7 of
             Raised e (m, h8) \<Rightarrow> Raised e h8
           | Exited n (m, h8) \<Rightarrow> Exited n h8
           | Returned (stop_matcher, h8) \<Rightarrow>
               main_input env args
                 (h8 @ [Protocol_load_all, New_session filter_matcher stop_matcher])))"
    by blast
  from build_matcher_handled [OF assms(3), of "''Filter matcher: ''" "matcher_always env" "h @ pre"]
  obtain fm fev where f:
    "build_matcher env ''Filter matcher: '' (args_f args) (matcher_always env) (h @ pre) =
       Returned (fm, (h @ pre) @ fev)"
    and fs: "sessions fev = []"
    and f1: "\<not> truthy (args_f args) \<longrightarrow> fm = matcher_always env \<and> fev = []"
    and f2: "\<forall>q e. args_f args = Some q \<and> q \<noteq> [] \<and> matcher_parse env q = Inl (RuntimeError e) \<longrightarrow>
        fm = matcher_always env \<and> fev = [Out_error e]"
    and f3: "\<forall>q parsed. args_f args = Some q \<and> q \<noteq> [] \<and> matcher_parse env q = Inr parsed \<longrightarrow>
        fm = simplify env parsed \<and>
        fev = [Out_log (''Filter matcher: '' @ str_matcher env (simplify env parsed))]"
    by (elim exE conjE) (rule that, assumption+)
  from build_matcher_handled [OF assms(4), of "''Break matcher: ''" "matcher_never env"
      "(h @ pre) @ fev"]
  obtain sm sev where s:
    "build_matcher env ''Break matcher: '' (args_b args) (matcher_never env) ((h @ pre) @ fev) =
       Returned (sm, ((h @ pre) @ fev) @ sev)"
    and ss: "sessions sev = []"
    and s1: "\<not> truthy (args_b args) \<longrightarrow> sm = matcher_never env \<and> sev = []"
    and s2: "\<forall>q e. args_b args = Some q \<and> q \<noteq> [] \<and> matcher_parse env q = Inl (RuntimeError e) \<longrightarrow>
        sm = matcher_never env \<and> sev = [Out_error e]"
    and s3: "\<forall>q parsed. args_b args = Some q \<and> q \<noteq> [] \<and> matcher_parse env q = Inr parsed \<longrightarrow>
        sm = simplify env parsed \<and>
        sev = [Out_log (''Break matcher: '' @ str_matcher env (simplify env parsed))]"
    by (elim exE conjE) (rule that, assumption+)
  from main f s have m: "main env args h =
       main_input env args (h @ (pre @ fev @ sev) @ [Protocol_load_all, New_session fm sm])"
    by simp
  show ?thesis
    apply (rule exI [of _ pre])
    apply (rule exI [of _ fm])
    apply (rule exI [of _ fev])
    apply (rule exI [of _ sm])
    apply (rule exI [of _ sev])
    using pre fs ss f1 f2 f3 s1 s2 s3 m
    apply (intro conjI)
             apply assumption+
    done
qed

lemma demo_piped_run:
  "piped_input_main demo_env h = Returned (h @ demo_piped_calls)"
  by (simp add: piped_input_main_def parse_messages_def demo_env_def demo_msg_def
        demo_trace_def dict_contains_def dict_set_def dict_keys_def demo_piped_calls_def)

lemma demo_env_matcher:
  "matcher_parse demo_env = demo_parse" "simplify demo_env = id" "str_matcher demo_env = id"
  "matcher_always demo_env = ''always''" "matcher_never demo_env = ''never''"
  "\<not> check_gdb demo_env"
  by (simp_all add: demo_env_def)

lemma demo_default_run:
  "main demo_env demo_args [] =
     Returned ([Std_streams, New_output False True, Out_log ''Showing unparsable output'',
                Protocol_load_all, New_session ''always'' ''never''] @ demo_piped_calls)"
  by (simp add: main_def main_input_def build_matcher_def demo_args_def truthy_def
        demo_piped_run demo_env_matcher Let_def)

lemma demo_bad_run:
  "main demo_env demo_bad_args [] =
     Returned ([Std_streams, New_output False True, Out_log ''Showing unparsable output'',
                Out_error ''Unmatched ('', Out_error ''Unmatched ('',
                Protocol_load_all, New_session ''always'' ''never'',
                Out_warn ''Ignoring stop matcher when stdin is used for messages''] @
               demo_piped_calls)"
  by (simp add: main_def main_input_def build_matcher_def demo_bad_args_def demo_args_def
        truthy_def demo_piped_run demo_env_matcher demo_parse_def Let_def)

lemma demo_break_run:
  "main demo_env demo_break_args [] =
     Returned ([Std_streams, New_output False True, Out_log ''Showing unparsable output'',
                Out_log ''Break matcher: wl_surface.destroy'',
                Protocol_load_all, New_session ''always'' ''wl_surface.destroy'',
                Out_warn ''Ignoring stop matcher when stdin is used for messages''] @
               demo_piped_calls)"
  by (simp add: main_def main_input_def build_matcher_def demo_break_args_def demo_args_def
        truthy_def demo_piped_run demo_env_matcher demo_parse_def Let_def)

text \<open>
  Claim C8, as the code has it. When \<^verbatim>\<open>open\<close> raises \<^verbatim>\<open>FileNotFoundError\<close> on the path
  given with \<^verbatim>\<open>--load\<close>, \<^verbatim>\<open>file_input_main\<close> logs the path it opens, reports
  \<^verbatim>\<open>path + ' not found'\<close> as an error and returns normally: no exception leaves it and
  the process does not exit. When \<^verbatim>\<open>open\<close> raises any other exception, nothing is
  reported and that exception leaves \<^verbatim>\<open>file_input_main\<close>.
\<close>

theorem file_input_main_open_fails:
  assumes "open_file session file_path = Inl e"
  shows "file_input_main session file_path h =
           (if e = FileNotFoundError
            then Returned (h @ [Out_log (''Opening '' @ file_path), Open_file file_path,
                                Out_error (file_path @ '' not found'')])
            else Raised e (h @ [Out_log (''Opening '' @ file_path), Open_file file_path]))"
  using assms by (simp add: file_input_main_def except_FileNotFoundError_def)

text \<open>No file \<^verbatim>\<open>nope.log\<close> exists for the demo session.\<close>

theorem file_input_main_open_fails_witness:
  "open_file demo_env ''nope.log'' = Inl FileNotFoundError \<and>
   file_input_main demo_env ''nope.log'' [] =
     Returned [Out_log ''Opening nope.log'', Open_file ''nope.log'',
               Out_error ''nope.log not found'']"
proof -
  have missing: "open_file demo_env ''nope.log'' = Inl FileNotFoundError"
    by (simp add: demo_env_def)
  from file_input_main_open_fails [OF missing, of "[]"] missing show ?thesis by simp
qed

text \<open>
  Claim C8 as stated fails. The path \<^verbatim>\<open>trace.log/x\<close> does not exist, since
  \<^verbatim>\<open>trace.log\<close> is a regular file; \<^verbatim>\<open>open\<close> raises \<^verbatim>\<open>NotADirectoryError\<close> on it, which
  the handler for \<^verbatim>\<open>FileNotFoundError\<close> does not catch. Nothing is reported, and the
  exception leaves \<^verbatim>\<open>file_input_main\<close> and \<^verbatim>\<open>main\<close>.
\<close>

theorem path_below_file_counterexample:
  "open_file demo_env ''trace.log/x'' = Inl NotADirectoryError \<and>
   file_input_main demo_env ''trace.log/x'' [] =
     Raised NotADirectoryError [Out_log ''Opening trace.log/x'', Open_file ''trace.log/x''] \<and>
   main demo_env demo_below_file_args [] =
     Raised NotADirectoryError
       [Std_streams, New_output False True, Out_log ''Showing unparsable output'',
        Protocol_load_all, New_session ''always'' ''never'',
        Out_log ''Opening trace.log/x'', Open_file ''trace.log/x'']"
  by (simp add: main_def main_input_def build_matcher_def demo_below_file_args_def
        demo_args_def truthy_def file_input_main_def except_FileNotFoundError_def
        demo_env_def Let_def)

text \<open>
  Claim C7. When \<^verbatim>\<open>main\<close> gets past its assertion and the help option, and no query
  makes \<^verbatim>\<open>matcher.parse\<close> raise anything but the \<^verbatim>\<open>RuntimeError\<close> that is handled, it
  constructs exactly one session; the filter matcher of that session is
  \<^verbatim>\<open>matcher.always\<close> when no filter query is supplied (the option is absent or empty),
  and its stop matcher is \<^verbatim>\<open>matcher.never\<close> when no break query is supplied.
\<close>

theorem default_matchers:
  assumes "\<not> args_gdb args" "\<not> args_matcher_help args"
    and "handled env (args_f args)" "handled env (args_b args)"
  shows "\<exists>fm sm. sessions (calls_of (main env args h)) = sessions h @ [(fm, sm)] \<and>
           (\<not> truthy (args_f args) \<longrightarrow> fm = matcher_always env) \<and>
           (\<not> truthy (args_b args) \<longrightarrow> sm = matcher_never env)"
proof -
  from main_builds_session [OF assms, of h] obtain pre fm fev sm sev where
    "sessions pre = []" "sessions fev = []" "sessions sev = []"
    "\<not> truthy (args_f args) \<longrightarrow> fm = matcher_always env \<and> fev = []"
    "\<not> truthy (args_b args) \<longrightarrow> sm = matcher_never env \<and> sev = []"
    "main env args h =
       main_input env args (h @ (pre @ fev @ sev) @ [Protocol_load_all, New_session fm sm])"
    by (elim exE conjE) (rule that, assumption+)
  then show ?thesis
    by (intro exI [of _ fm] exI [of _ sm]) (simp add: main_input_sessions sessions_append)
qed

text \<open>The demo session with no option at all.\<close>

theorem default_matchers_witness:
  "\<not> args_gdb demo_args \<and> \<not> args_matcher_help demo_args \<and>
   handled demo_env (args_f demo_args) \<and> handled demo_env (args_b demo_args) \<and>
   \<not> truthy (args_f demo_args) \<and> \<not> truthy (args_b demo_args) \<and>
   main demo_env demo_args [] =
     Returned ([Std_streams, New_output False True, Out_log ''Showing unparsable output'',
                Protocol_load_all, New_session ''always'' ''never''] @ demo_piped_calls) \<and>
   sessions (calls_of (main demo_env demo_args [])) =
     [(matcher_always demo_env, matcher_never demo_env)]"
proof -
  have hyps: "\<not> args_gdb demo_args" "\<not> args_matcher_help demo_args"
    "handled demo_env (args_f demo_args)" "handled demo_env (args_b demo_args)"
    by (simp_all add: demo_args_def handled_def)
  have none: "\<not> truthy (args_f demo_args)" "\<not> truthy (args_b demo_args)"
    by (simp_all add: demo_args_def truthy_def)
  from default_matchers [OF hyps, of "[]"] none
  have "sessions (calls_of (main demo_env demo_args [])) =
     [(matcher_always demo_env, matcher_never demo_env)]"
    by auto
  with hyps none demo_default_run show ?thesis by simp
qed

text \<open>
  Claim C2. Under the same conditions, a filter query for which \<^verbatim>\<open>matcher.parse\<close>
  raises \<^verbatim>\<open>RuntimeError\<close> is reported with \<^verbatim>\<open>output.error\<close> and the session is
  constructed with the filter matcher \<^verbatim>\<open>matcher.always\<close>; a break query that fails so is
  reported and the session is constructed with the stop matcher \<^verbatim>\<open>matcher.never\<close>. In
  both cases \<^verbatim>\<open>main\<close> goes on: it loads the protocols, constructs the one session and
  processes its input.
\<close>

theorem parse_failure_keeps_default:
  assumes "\<not> args_gdb args" "\<not> args_matcher_help args"
    and "handled env (args_f args)" "handled env (args_b args)"
  shows "\<exists>ev fm sm.
     main env args h =
       main_input env args (h @ ev @ [Protocol_load_all, New_session fm sm]) \<and>
     sessions (calls_of (main env args h)) = sessions h @ [(fm, sm)] \<and>
     (\<forall>q e. args_f args = Some q \<and> q \<noteq> [] \<and> matcher_parse env q = Inl (RuntimeError e) \<longrightarrow>
        Out_error e \<in> set ev \<and> fm = matcher_always env) \<and>
     (\<forall>q e. args_b args = Some q \<and> q \<noteq> [] \<and> matcher_parse env q = Inl (RuntimeError e) \<longrightarrow>
        Out_error e \<in> set ev \<and> sm = matcher_never env)"
proof -
  from main_builds_session [OF assms, of h] obtain pre fm fev sm sev where
    s: "sessions pre = []" "sessions fev = []" "sessions sev = []"
    and f: "\<forall>q e. args_f args = Some q \<and> q \<noteq> [] \<and> matcher_parse env q = Inl (RuntimeError e) \<longrightarrow>
        fm = matcher_always env \<and> fev = [Out_error e]"
    and b: "\<forall>q e. args_b args = Some q \<and> q \<noteq> [] \<and> matcher_parse env q = Inl (RuntimeError e) \<longrightarrow>
        sm = matcher_never env \<and> sev = [Out_error e]"
    and m: "main env args h =
       main_input env args (h @ (pre @ fev @ sev) @ [Protocol_load_all, New_session fm sm])"
    by (elim exE conjE) (rule that, assumption+)
  from m s have sess: "sessions (calls_of (main env args h)) = sessions h @ [(fm, sm)]"
    by (simp add: main_input_sessions sessions_append)
  from f have f': "Out_error e \<in> set (pre @ fev @ sev) \<and> fm = matcher_always env"
    if "args_f args = Some q \<and> q \<noteq> [] \<and> matcher_parse env q = Inl (RuntimeError e)" for q e
    using that by auto
  from b have b': "Out_error e \<in> set (pre @ fev @ sev) \<and> sm = matcher_never env"
    if "args_b args = Some q \<and> q \<noteq> [] \<and> matcher_parse env q = Inl (RuntimeError e)" for q e
    using that by auto
  show ?thesis
    apply (rule exI [of _ "pre @ fev @ sev"])
    apply (rule exI [of _ fm])
    apply (rule exI [of _ sm])
    using m sess f' b'
    apply (intro conjI allI impI)
         apply assumption+
       apply blast+
    done
qed

text \<open>The demo session with two malformed queries: both are reported, both defaults kept.\<close>

theorem parse_failure_keeps_default_witness:
  "\<not> args_gdb demo_bad_args \<and> \<not> args_matcher_help demo_bad_args \<and>
   handled demo_env (args_f demo_bad_args) \<and> handled demo_env (args_b demo_bad_args) \<and>
   matcher_parse demo_env ''(wl_surface'' = Inl (RuntimeError ''Unmatched ('') \<and>
   matcher_parse demo_env ''('' = Inl (RuntimeError ''Unmatched ('') \<and>
   main demo_env demo_bad_args [] =
     Returned ([Std_streams, New_output False True, Out_log ''Showing unparsable output'',
                Out_error ''Unmatched ('', Out_error ''Unmatched ('',
                Protocol_load_all, New_session ''always'' ''never'',
                Out_warn ''Ignoring stop matcher when stdin is used for messages''] @
               demo_piped_calls) \<and>
   sessions (calls_of (main demo_env demo_bad_args [])) =
     [(matcher_always demo_env, matcher_never demo_env)]"
proof -
  have hyps: "\<not> args_gdb demo_bad_args" "\<not> args_matcher_help demo_bad_args"
    "handled demo_env (args_f demo_bad_args)" "handled demo_env (args_b demo_bad_args)"
    by (simp_all add: demo_bad_args_def demo_args_def handled_def demo_env_def demo_parse_def)
  have f: "args_f demo_bad_args = Some ''(wl_surface'' \<and> ''(wl_surface'' \<noteq> [] \<and>
      matcher_parse demo_env ''(wl_surface'' = Inl (RuntimeError ''Unmatched ('')"
    by (simp add: demo_bad_args_def demo_args_def demo_env_def demo_parse_def)
  have b: "args_b demo_bad_args = Some ''('' \<and> ''('' \<noteq> [] \<and>
      matcher_parse demo_env ''('' = Inl (RuntimeError ''Unmatched ('')"
    by (simp add: demo_bad_args_def demo_args_def demo_env_def demo_parse_def)
  from parse_failure_keeps_default [OF hyps, of "[]"]
  obtain ev :: "(nat, int, string) call list" and fm sm where
    sess: "sessions (calls_of (main demo_env demo_bad_args [])) =
      sessions ([] :: (nat, int, string) call list) @ [(fm, sm)]"
    and ff: "\<forall>q e. args_f demo_bad_args = Some q \<and> q \<noteq> [] \<and>
        matcher_parse demo_env q = Inl (RuntimeError e) \<longrightarrow>
        Out_error e \<in> set ev \<and> fm = matcher_always demo_env"
    and bb: "\<forall>q e. args_b demo_bad_args = Some q \<and> q \<noteq> [] \<and>
        matcher_parse demo_env q = Inl (RuntimeError e) \<longrightarrow>
        Out_error e \<in> set ev \<and> sm = matcher_never demo_env"
    by (elim exE conjE) (rule that, assumption+)
  from ff [rule_format, OF f] have "fm = matcher_always demo_env" by simp
  moreover from bb [rule_format, OF b] have "sm = matcher_never demo_env" by simp
  ultimately show ?thesis using sess hyps f b demo_bad_run by simp
qed

text \<open>
  Claim C10, as the code has it. When \<^verbatim>\<open>main\<close> reads the messages from standard input
  (not inside GDB, no load path) and a break query was supplied, the session is
  constructed first, the warning that the stop matcher is ignored is issued after that,
  and \<^verbatim>\<open>piped_input_main\<close> then drives this very session. The stop matcher of the
  session is the parsed and simplified break matcher when the query parses; when
  \<^verbatim>\<open>matcher.parse\<close> raises \<^verbatim>\<open>RuntimeError\<close> on it the failure is reported and the stop
  matcher is \<^verbatim>\<open>matcher.never\<close>, and the warning is issued all the same.
\<close>

theorem stdin_break_matcher_in_force:
  assumes "\<not> args_gdb args" "\<not> args_matcher_help args"
    and "handled env (args_f args)" "handled env (args_b args)"
    and "\<not> check_gdb env" "\<not> truthy (args_path args)"
    and "args_b args = Some q" "q \<noteq> []"
  shows "\<exists>ev fm sm.
     main env args h =
       piped_input_main env
         (h @ ev @ [Protocol_load_all, New_session fm sm,
                    Out_warn ''Ignoring stop matcher when stdin is used for messages'']) \<and>
     sessions (calls_of (main env args h)) = sessions h @ [(fm, sm)] \<and>
     (\<forall>parsed. matcher_parse env q = Inr parsed \<longrightarrow> sm = simplify env parsed) \<and>
     (\<forall>e. matcher_parse env q = Inl (RuntimeError e) \<longrightarrow>
        sm = matcher_never env \<and> Out_error e \<in> set ev)"
proof -
  from main_builds_session [OF assms(1-4), of h] obtain pre fm fev sm sev where
    s: "sessions pre = []" "sessions fev = []" "sessions sev = []"
    and bad: "\<forall>q e. args_b args = Some q \<and> q \<noteq> [] \<and> matcher_parse env q = Inl (RuntimeError e) \<longrightarrow>
        sm = matcher_never env \<and> sev = [Out_error e]"
    and good: "\<forall>q parsed. args_b args = Some q \<and> q \<noteq> [] \<and> matcher_parse env q = Inr parsed \<longrightarrow>
        sm = simplify env parsed \<and>
        sev = [Out_log (''Break matcher: '' @ str_matcher env (simplify env parsed))]"
    and m: "main env args h =
       main_input env args (h @ (pre @ fev @ sev) @ [Protocol_load_all, New_session fm sm])"
    by (elim exE conjE) (rule that, assumption+)
  from good assms(7,8) have parsed: "sm = simplify env parsed"
    if "matcher_parse env q = Inr parsed" for parsed
    using that by blast
  from bad assms(7,8) have failed: "sm = matcher_never env \<and> Out_error e \<in> set (pre @ fev @ sev)"
    if "matcher_parse env q = Inl (RuntimeError e)" for e
    using that by auto
  from m s have sess: "sessions (calls_of (main env args h)) = sessions h @ [(fm, sm)]"
    by (simp add: main_input_sessions sessions_append)
  from assms(7,8) have "truthy (args_b args)" by (simp add: truthy_def)
  with assms(5,6) m have piped: "main env args h =
       piped_input_main env
         (h @ (pre @ fev @ sev) @ [Protocol_load_all, New_session fm sm,
                    Out_warn ''Ignoring stop matcher when stdin is used for messages''])"
    by (simp add: main_input_def Let_def)
  show ?thesis
    apply (rule exI [of _ "pre @ fev @ sev"])
    apply (rule exI [of _ fm])
    apply (rule exI [of _ sm])
    using piped sess parsed failed
    apply (intro conjI allI impI)
         apply assumption+
       apply blast+
    done
qed

text \<open>The demo session with the break query \<^verbatim>\<open>wl_surface.destroy\<close>, which parses.\<close>

theorem stdin_break_matcher_in_force_witness:
  "\<not> check_gdb demo_env \<and> \<not> truthy (args_path demo_break_args) \<and>
   args_b demo_break_args = Some ''wl_surface.destroy'' \<and>
   matcher_parse demo_env ''wl_surface.destroy'' = Inr ''wl_surface.destroy'' \<and>
   main demo_env demo_break_args [] =
     Returned ([Std_streams, New_output False True, Out_log ''Showing unparsable output'',
                Out_log ''Break matcher: wl_surface.destroy'',
                Protocol_load_all, New_session ''always'' ''wl_surface.destroy'',
                Out_warn ''Ignoring stop matcher when stdin is used for messages''] @
               demo_piped_calls) \<and>
   map snd (sessions (calls_of (main demo_env demo_break_args []))) =
     [simplify demo_env ''wl_surface.destroy'']"
proof -
  have hyps: "\<not> args_gdb demo_break_args" "\<not> args_matcher_help demo_break_args"
    "handled demo_env (args_f demo_break_args)" "handled demo_env (args_b demo_break_args)"
    "\<not> check_gdb demo_env" "\<not> truthy (args_path demo_break_args)"
    "args_b demo_break_args = Some ''wl_surface.destroy''" "''wl_surface.destroy'' \<noteq> []"
    by (simp_all add: demo_break_args_def demo_args_def handled_def demo_env_def
          demo_parse_def truthy_def)
  have parses: "matcher_parse demo_env ''wl_surface.destroy'' = Inr ''wl_surface.destroy''"
    by (simp add: demo_env_def demo_parse_def)
  from stdin_break_matcher_in_force [OF hyps, of "[]"]
  obtain ev :: "(nat, int, string) call list" and fm sm where
    sess: "sessions (calls_of (main demo_env demo_break_args [])) =
       sessions ([] :: (nat, int, string) call list) @ [(fm, sm)]"
    and good: "\<forall>parsed. matcher_parse demo_env ''wl_surface.destroy'' = Inr parsed \<longrightarrow>
       sm = simplify demo_env parsed"
    by (elim exE conjE) (rule that, assumption+)
  from good [rule_format, OF parses] have "sm = simplify demo_env ''wl_surface.destroy''" .
  with sess hyps parses demo_break_run show ?thesis by simp
qed

text \<open>
  Claim C10 as stated fails. With the break query \<^verbatim>\<open>(\<close> supplied and the messages read
  from standard input, the query does not parse: the failure is reported, the session
  is constructed with the stop matcher \<^verbatim>\<open>never\<close>, and the warning is issued.
\<close>

theorem unparsed_break_query_counterexample:
  "args_b demo_unparsed_break_args = Some ''('' \<and>
   matcher_parse demo_env ''('' = Inl (RuntimeError ''Unmatched ('') \<and>
   matcher_never demo_env = ''never'' \<and>
   main demo_env demo_unparsed_break_args [] =
     Returned ([Std_streams, New_output False True, Out_log ''Showing unparsable output'',
                Out_error ''Unmatched ('',
                Protocol_load_all, New_session ''always'' ''never'',
                Out_warn ''Ignoring stop matcher when stdin is used for messages''] @
               demo_piped_calls)"
  by (simp add: main_def main_input_def build_matcher_def demo_unparsed_break_args_def
        demo_args_def truthy_def demo_piped_run demo_env_matcher demo_parse_def Let_def)

end
